theory Spec2Isabelle
  imports Main "HOL-Library.Word"
begin

section \<open>The C library as the backend uses it\<close>

text \<open>
  The backend is one C file, \<^verbatim>\<open>src/main.c\<close>. Bytes are \<^typ>\<open>char\<close> (eight bits), and a
  buffer is a \<^typ>\<open>string\<close>: a list of bytes. A string that reaches a function as an argument
  (\<^verbatim>\<open>const char*\<close>) is represented by the bytes before its terminator. A buffer that was
  filled from a file can hold a zero byte anywhere; where the code then reads the buffer as a C
  string (\<^verbatim>\<open>strlen\<close>, \<^verbatim>\<open>%s\<close>, \<^verbatim>\<open>webui_return_string\<close>), the model cuts it at the
  first zero byte with \<open>cstr\<close>.
\<close>

definition cstr :: "string \<Rightarrow> string" where
  "cstr buf = takeWhile (\<lambda>c. c \<noteq> CHR 0x00) buf"

text \<open>
  \<^verbatim>\<open>snprintf(buf, n, fmt, ...)\<close> stores at most \<open>n - 1\<close> bytes of the formatted text and
  the terminator. The second argument of \<open>snprintf\<close> below is the whole formatted text.
\<close>

definition snprintf :: "nat \<Rightarrow> string \<Rightarrow> string" where
  "snprintf n formatted = take (n - 1) formatted"

text \<open>The conversions \<^verbatim>\<open>%ld\<close> and \<^verbatim>\<open>%lld\<close>: a decimal numeral, with a sign when negative.\<close>

fun dec_nat :: "nat \<Rightarrow> string" where
  "dec_nat n =
     (if n < 10 then [''0123456789'' ! n]
      else dec_nat (n div 10) @ [''0123456789'' ! (n mod 10)])"

declare dec_nat.simps [simp del]

definition fmt_ld :: "int \<Rightarrow> string" where
  "fmt_ld i = (if i < 0 then CHR ''-'' # dec_nat (nat (- i)) else dec_nat (nat i))"

text \<open>The conversion \<^verbatim>\<open>%04x\<close>: lower-case hexadecimal, padded with zeros to four digits.\<close>

fun hex_nat :: "nat \<Rightarrow> string" where
  "hex_nat n =
     (if n < 16 then [''0123456789abcdef'' ! n]
      else hex_nat (n div 16) @ [''0123456789abcdef'' ! (n mod 16)])"

declare hex_nat.simps [simp del]

definition fmt_04x :: "nat \<Rightarrow> string" where
  "fmt_04x n = (let h = hex_nat n in replicate (4 - length h) (CHR ''0'') @ h)"

text \<open>
  \<^verbatim>\<open>strrchr(s, c)\<close>: the suffix of \<open>s\<close> that starts at the last occurrence of \<open>c\<close>, or a
  null pointer (\<open>None\<close>) when \<open>c\<close> does not occur.
\<close>

fun strrchr :: "string \<Rightarrow> char \<Rightarrow> string option" where
  "strrchr [] c = None"
| "strrchr (x # xs) c =
     (case strrchr xs c of
        Some r \<Rightarrow> Some r
      | None \<Rightarrow> if x = c then Some (x # xs) else None)"

section \<open>The environment of a call\<close>

text \<open>
  A file has the size that the file system reports for it (\<^verbatim>\<open>st_size\<close> of \<^verbatim>\<open>stat\<close>, and
  what \<^verbatim>\<open>ftell\<close> returns at its end), the bytes that reading it from its start returns,
  and a flag that says whether the process may open it for reading. The code takes the size
  and the bytes from different calls, and they need not agree: a regular file that nobody
  writes holds as many bytes as its size says, a file of \<^verbatim>\<open>sysfs\<close> reports a page and
  returns a few bytes, a directory opens and returns none. \<^verbatim>\<open>fread\<close> returns the bytes
  there are, up to the number asked for. \<^verbatim>\<open>stat\<close> needs no read permission on the file,
  so a file that is present and not readable has a size and cannot be opened.

  The environment of a call holds the file system, the process environment variables, an
  oracle for \<^verbatim>\<open>malloc\<close> (whether a request of that many bytes is granted), an oracle for
  \<^verbatim>\<open>fopen(p, "w")\<close> (whether \<open>p\<close> can be opened for writing, the directory creation of
  \<^verbatim>\<open>add_recent_file\<close> having been attempted) and the wall clock in milliseconds since the epoch, of which
  \<^verbatim>\<open>time(NULL)\<close> returns the whole seconds.
  \<^verbatim>\<open>long\<close>, \<^verbatim>\<open>long long\<close> and \<^verbatim>\<open>time_t\<close> are 64 bits wide (LP64).
\<close>

record disk_file =
  st_size :: nat
  content :: string
  readable :: bool

record env =
  files :: "string \<Rightarrow> disk_file option"
  getenv :: "string \<Rightarrow> string option"
  malloc_ok :: "nat \<Rightarrow> bool"
  fopen_w_ok :: "string \<Rightarrow> bool"
  clock_ms :: "64 word"

definition stat_size :: "env \<Rightarrow> string \<Rightarrow> int option" where
  "stat_size env path = map_option (\<lambda>f. int (st_size f)) (files env path)"

definition fopen_r :: "env \<Rightarrow> string \<Rightarrow> disk_file option" where
  "fopen_r env path =
     (case files env path of
        None \<Rightarrow> None
      | Some f \<Rightarrow> if readable f then Some f else None)"

definition time_null :: "env \<Rightarrow> int" where
  "time_null env = sint (clock_ms env) div 1000"

section \<open>Helpers of the backend\<close>

definition MAX_FILE_SIZE :: int where
  "MAX_FILE_SIZE = 10 * 1024 * 1024"

definition get_home :: "env \<Rightarrow> string" where
  "get_home env =
     (case getenv env ''HOME'' of
        Some home \<Rightarrow> home
      | None \<Rightarrow> (case getenv env ''USERPROFILE'' of Some home \<Rightarrow> home | None \<Rightarrow> ''.''))"

definition get_recent_path :: "env \<Rightarrow> nat \<Rightarrow> string" where
  "get_recent_path env len = snprintf len (get_home env @ ''/.mocha/recent.json'')"

text \<open>
  The file name of a path, as \<^verbatim>\<open>read_file\<close> and \<^verbatim>\<open>add_recent_file\<close> both extract it:
  what follows the last \<^verbatim>\<open>/\<close>; when there is no \<^verbatim>\<open>/\<close>, what follows the last backslash;
  the path itself when there is neither.
\<close>

definition extract_filename :: "string \<Rightarrow> string" where
  "extract_filename path =
     (case strrchr path (CHR ''/'') of
        Some name \<Rightarrow> tl name
      | None \<Rightarrow> (case strrchr path (CHR 0x5C) of Some name \<Rightarrow> tl name | None \<Rightarrow> path))"

subsection \<open>\<^verbatim>\<open>json_escape\<close>\<close>

text \<open>One turn of the loop of \<^verbatim>\<open>json_escape\<close>: the bytes written for the byte \<open>c\<close>.\<close>

definition escape_byte :: "char \<Rightarrow> string" where
  "escape_byte c =
     (if c = CHR 0x22 then [CHR 0x5C, CHR 0x22]
      else if c = CHR 0x5C then [CHR 0x5C, CHR 0x5C]
      else if c = CHR 0x08 then [CHR 0x5C, CHR ''b'']
      else if c = CHR 0x0C then [CHR 0x5C, CHR ''f'']
      else if c = CHR 0x0A then [CHR 0x5C, CHR ''n'']
      else if c = CHR 0x0D then [CHR 0x5C, CHR ''r'']
      else if c = CHR 0x09 then [CHR 0x5C, CHR ''t'']
      else if of_char c < (32 :: nat) then [CHR 0x5C, CHR ''u''] @ fmt_04x (of_char c)
      else [c])"

primrec json_escape_loop :: "string \<Rightarrow> string" where
  "json_escape_loop [] = []"
| "json_escape_loop (c # cs) = escape_byte c @ json_escape_loop cs"

text \<open>
  \<^verbatim>\<open>json_escape(str, len)\<close>: \<open>str\<close> is the list of the \<open>len\<close> bytes. The result is a null
  pointer (\<open>None\<close>) when the buffer of \<open>len * 6 + 1\<close> bytes is not granted.
\<close>

definition json_escape :: "env \<Rightarrow> string \<Rightarrow> string option" where
  "json_escape env str =
     (if malloc_ok env (length str * 6 + 1) then Some (json_escape_loop str) else None)"

section \<open>Reading a JSON string back\<close>

text \<open>
  Modelled from the spec: the "standard decoding" of a JSON string, which the backend leaves to
  the JSON parser of the UI. The grammar is that of RFC 8259, section 7, read on bytes: after a
  backslash one of the escapes \<^verbatim>\<open>" \ / b f n r t\<close> or \<^verbatim>\<open>u\<close> with four hexadecimal digits (a
  code point, written out in UTF-8; a high surrogate must be followed by an escaped low
  surrogate, and the pair is one code point); a byte below 32 is refused; every other byte
  stands for itself. Bytes from 128 on are copied and not checked to be UTF-8, which is the
  byte-transparent reading of the spec.
\<close>

definition hexval :: "char \<Rightarrow> nat option" where
  "hexval c =
     (let n = (of_char c :: nat) in
      if 48 \<le> n \<and> n \<le> 57 then Some (n - 48)
      else if 97 \<le> n \<and> n \<le> 102 then Some (n - 87)
      else if 65 \<le> n \<and> n \<le> 70 then Some (n - 55)
      else None)"

definition hex4 :: "string \<Rightarrow> (nat \<times> string) option" where
  "hex4 s =
     (case s of
        a # b # c # d # r \<Rightarrow>
          (case (hexval a, hexval b, hexval c, hexval d) of
             (Some x, Some y, Some z, Some w) \<Rightarrow> Some (((x * 16 + y) * 16 + z) * 16 + w, r)
           | _ \<Rightarrow> None)
      | _ \<Rightarrow> None)"

definition utf8_encode :: "nat \<Rightarrow> string" where
  "utf8_encode cp =
     (if cp < 0x80 then [char_of cp]
      else if cp < 0x800 then [char_of (0xC0 + cp div 64), char_of (0x80 + cp mod 64)]
      else if cp < 0x10000 then
        [char_of (0xE0 + cp div 4096), char_of (0x80 + cp div 64 mod 64),
         char_of (0x80 + cp mod 64)]
      else
        [char_of (0xF0 + cp div 262144), char_of (0x80 + cp div 4096 mod 64),
         char_of (0x80 + cp div 64 mod 64), char_of (0x80 + cp mod 64)])"

text \<open>
  One character of a string body, at the head of the input: the bytes it stands for and the
  input that follows it, or \<open>None\<close> when the input is not a character of a JSON string.
  The closing quote is the caller's.
\<close>

definition json_char :: "string \<Rightarrow> (string \<times> string) option" where
  "json_char inp =
     (case inp of
        [] \<Rightarrow> None
      | c # cs \<Rightarrow>
          if c = CHR 0x5C then
            (case cs of
               [] \<Rightarrow> None
             | e # r \<Rightarrow>
                 if e = CHR 0x22 then Some ([CHR 0x22], r)
                 else if e = CHR 0x5C then Some ([CHR 0x5C], r)
                 else if e = CHR ''/'' then Some ([CHR ''/''], r)
                 else if e = CHR ''b'' then Some ([CHR 0x08], r)
                 else if e = CHR ''f'' then Some ([CHR 0x0C], r)
                 else if e = CHR ''n'' then Some ([CHR 0x0A], r)
                 else if e = CHR ''r'' then Some ([CHR 0x0D], r)
                 else if e = CHR ''t'' then Some ([CHR 0x09], r)
                 else if e = CHR ''u'' then
                   (case hex4 r of
                      None \<Rightarrow> None
                    | Some (cp, r1) \<Rightarrow>
                        if 0xD800 \<le> cp \<and> cp < 0xDC00 then
                          (case r1 of
                             b # u # r2 \<Rightarrow>
                               if b = CHR 0x5C \<and> u = CHR ''u'' then
                                 (case hex4 r2 of
                                    None \<Rightarrow> None
                                  | Some (lo, r3) \<Rightarrow>
                                      if 0xDC00 \<le> lo \<and> lo < 0xE000 then
                                        Some (utf8_encode
                                          (0x10000 + (cp - 0xD800) * 0x400 + (lo - 0xDC00)), r3)
                                      else None)
                               else None
                           | _ \<Rightarrow> None)
                        else if 0xDC00 \<le> cp \<and> cp < 0xE000 then None
                        else Some (utf8_encode cp, r1))
                 else None)
          else if c = CHR 0x22 then None
          else if of_char c < (32 :: nat) then None
          else Some ([c], cs))"

text \<open>
  The body of a string, read from just after the opening quote up to the closing quote: the
  bytes of the string and the input after the closing quote.
\<close>

function json_read_string :: "string \<Rightarrow> (string \<times> string) option" where
  "json_read_string [] = None"
| "json_read_string (c # cs) =
     (if c = CHR 0x22 then Some ([], cs)
      else
        (case json_char (c # cs) of
           None \<Rightarrow> None
         | Some (out, rest) \<Rightarrow>
             (case json_read_string rest of
                None \<Rightarrow> None
              | Some (s, r) \<Rightarrow> Some (out @ s, r))))"
  by pat_completeness auto
termination
  by (relation "measure length")
    (auto simp: json_char_def hex4_def split: list.splits if_splits option.splits prod.splits)

text \<open>A whole string literal, quotes included, and nothing after it.\<close>

definition json_decode_string :: "string \<Rightarrow> string option" where
  "json_decode_string s =
     (case s of
        [] \<Rightarrow> None
      | q # body \<Rightarrow>
          if q = CHR 0x22 then
            (case json_read_string body of
               Some (out, []) \<Rightarrow> Some out
             | _ \<Rightarrow> None)
          else None)"

section \<open>The bindings\<close>

subsection \<open>\<^verbatim>\<open>readFile(path, offset)\<close>\<close>

text \<open>
  \<^verbatim>\<open>read_file\<close> answers with one string, the argument of its call of
  \<^verbatim>\<open>webui_return_string\<close>; every path through the function makes exactly one such call. The
  path is the first argument of the event (a null pointer is refused as the empty string is,
  so both are \<open>[]\<close>), the offset the second, cast to \<^verbatim>\<open>long\<close>. \<^verbatim>\<open>stat\<close> and \<^verbatim>\<open>fopen\<close>
  see the same file: its size is what \<^verbatim>\<open>stat\<close> reports, its bytes are what \<^verbatim>\<open>fread\<close>
  returns after the \<^verbatim>\<open>fseek\<close> to the start of the read.
\<close>

definition read_file :: "env \<Rightarrow> string \<Rightarrow> 64 word \<Rightarrow> string" where
  \<open>read_file env path offset_arg =
     (let offset = sint offset_arg in
      if path = [] then ''{"success":false,"error":"No path provided"}''
      else
        case stat_size env path of
          None \<Rightarrow> ''{"success":false,"error":"Cannot stat file"}''
        | Some current_size \<Rightarrow>
            if offset > 0 \<and> current_size \<le> offset then
              snprintf 256
                (''{"success":true,"content":"","size":'' @ fmt_ld current_size @
                 '',"prevSize":'' @ fmt_ld offset @ ''}'')
            else
              case fopen_r env path of
                None \<Rightarrow> ''{"success":false,"error":"Cannot open file"}''
              | Some f \<Rightarrow>
                  let read_start = (if offset > 0 then offset else 0);
                      read_size = current_size - read_start
                  in
                    if read_size > MAX_FILE_SIZE then
                      ''{"success":false,"error":"File too large (max 10MB)"}''
                    else if \<not> malloc_ok env (nat (read_size + 1)) then
                      ''{"success":false,"error":"Memory allocation failed"}''
                    else
                      let content_buf =
                            take (nat read_size) (drop (nat read_start) (content f));
                          name = extract_filename path
                      in
                        case json_escape env content_buf of
                          None \<Rightarrow> ''{"success":false,"error":"Failed to escape content"}''
                        | Some escaped_content \<Rightarrow>
                            let response_size =
                                  length (cstr escaped_content) + length path + length name + 256
                            in
                              if \<not> malloc_ok env response_size then
                                ''{"success":false,"error":"Memory allocation failed"}''
                              else
                                snprintf response_size
                                  (''{"success":true,"content":"'' @ cstr escaped_content @
                                   ''","path":"'' @ path @ ''","name":"'' @ name @
                                   ''","size":'' @ fmt_ld current_size @
                                   '',"prevSize":'' @ fmt_ld offset @ ''}''))\<close>

subsection \<open>\<^verbatim>\<open>getRecentFiles\<close>\<close>

definition get_recent_files :: "env \<Rightarrow> string" where
  \<open>get_recent_files env =
     (let path = get_recent_path env 512 in
      case fopen_r env path of
        None \<Rightarrow> ''[]''
      | Some f \<Rightarrow>
          let size = int (st_size f) in
            if size \<le> 0 then ''[]''
            else if \<not> malloc_ok env (nat (size + 1)) then ''[]''
            else cstr (take (nat size) (content f)))\<close>

subsection \<open>\<^verbatim>\<open>addRecentFile(path)\<close>\<close>

text \<open>
  \<^verbatim>\<open>add_recent_file\<close> returns nothing: its result is the environment it leaves. The result of
  \<^verbatim>\<open>mkdir\<close> is not looked at; whether the file can then be opened for writing is the oracle
  \<open>fopen_w_ok\<close>. A file that the call creates is readable.
\<close>

definition add_recent_file :: "env \<Rightarrow> string \<Rightarrow> env" where
  \<open>add_recent_file env file_path =
     (if file_path = [] then env
      else
        let name = extract_filename file_path;
            now = time_null env * 1000;
            recent_path = get_recent_path env 512;
            dir = snprintf 512 (get_home env @ ''/.mocha'');
            existing =
              (case fopen_r env recent_path of
                 None \<Rightarrow> None
               | Some f \<Rightarrow>
                   if int (st_size f) > 0 \<and> malloc_ok env (st_size f + 1)
                   then Some (cstr (take (st_size f) (content f))) else None);
            new_json_size =
              length file_path + length name +
              (case existing of Some old \<Rightarrow> length old | None \<Rightarrow> 0) + 256
        in
          if \<not> malloc_ok env new_json_size then env
          else
            let entry =
                  ''[{"path":"'' @ file_path @ ''","name":"'' @ name @
                  ''","lastOpened":'' @ fmt_ld now @ ''}'';
                new_json =
                  (case existing of
                     None \<Rightarrow> snprintf new_json_size (entry @ '']'')
                   | Some old \<Rightarrow>
                       if length old > 2 then snprintf new_json_size (entry @ '','' @ tl old)
                       else snprintf new_json_size (entry @ '']''))
            in
              if fopen_w_ok env recent_path then
                env\<lparr>files := (files env)(recent_path \<mapsto>
                  (case files env recent_path of
                     None \<Rightarrow>
                       \<lparr>st_size = length new_json, content = new_json, readable = True\<rparr>
                   | Some f \<Rightarrow> f\<lparr>st_size := length new_json, content := new_json\<rparr>))\<rparr>
              else env)\<close>

section \<open>The vocabulary of the claims\<close>

text \<open>A response of \<^verbatim>\<open>read_file\<close> reports success when it starts as every success payload does.\<close>

definition is_success :: "string \<Rightarrow> bool" where
  \<open>is_success response = (take 15 response = ''{"success":true'')\<close>

text \<open>The bytes of a file at the positions \<open>i\<close> with \<open>lo \<le> i < hi\<close>, in order.\<close>

definition bytes_in_range :: "string \<Rightarrow> int \<Rightarrow> int \<Rightarrow> string" where
  "bytes_in_range bs lo hi =
     map snd (filter (\<lambda>(i, b). lo \<le> int i \<and> int i < hi) (enumerate 0 bs))"

text \<open>Whether \<open>pat\<close> occurs in a text as a run of consecutive bytes.\<close>

primrec occurs_in :: "string \<Rightarrow> string \<Rightarrow> bool" where
  "occurs_in pat [] = (pat = [])"
| "occurs_in pat (x # xs) = (take (length pat) (x # xs) = pat \<or> occurs_in pat xs)"

text \<open>
  Reading the recent-files list back, in the layout \<^verbatim>\<open>add_recent_file\<close> writes: a bracketed,
  comma-separated list of objects with the members \<^verbatim>\<open>path\<close>, \<^verbatim>\<open>name\<close> (JSON strings) and
  \<^verbatim>\<open>lastOpened\<close> (a JSON integer), without white space. Every text this reader accepts is a
  JSON text.
\<close>

record recent_entry =
  entry_path :: string
  entry_name :: string
  last_opened :: int

definition expect :: "string \<Rightarrow> string \<Rightarrow> string option" where
  "expect lit s = (if take (length lit) s = lit then Some (drop (length lit) s) else None)"

definition is_digit :: "char \<Rightarrow> bool" where
  "is_digit c = (48 \<le> (of_char c :: nat) \<and> (of_char c :: nat) \<le> 57)"

definition digits_value :: "string \<Rightarrow> int" where
  "digits_value ds = foldl (\<lambda>a c. a * 10 + (of_char c - 48)) 0 ds"

definition parse_int :: "string \<Rightarrow> (int \<times> string) option" where
  "parse_int s =
     (let neg = (s \<noteq> [] \<and> hd s = CHR ''-'');
          s1 = (if neg then tl s else s);
          ds = takeWhile is_digit s1
      in
        if ds = [] \<or> (length ds > 1 \<and> hd ds = CHR ''0'') then None
        else Some (if neg then - digits_value ds else digits_value ds,
                   dropWhile is_digit s1))"

definition parse_entry :: "string \<Rightarrow> (recent_entry \<times> string) option" where
  \<open>parse_entry s =
     (case expect ''{"path":"'' s of
        None \<Rightarrow> None
      | Some s1 \<Rightarrow>
          (case json_read_string s1 of
             None \<Rightarrow> None
           | Some (p, s2) \<Rightarrow>
               (case expect '',"name":"'' s2 of
                  None \<Rightarrow> None
                | Some s3 \<Rightarrow>
                    (case json_read_string s3 of
                       None \<Rightarrow> None
                     | Some (n, s4) \<Rightarrow>
                         (case expect '',"lastOpened":'' s4 of
                            None \<Rightarrow> None
                          | Some s5 \<Rightarrow>
                              (case parse_int s5 of
                                 None \<Rightarrow> None
                               | Some (t, s6) \<Rightarrow>
                                   (case expect ''}'' s6 of
                                      None \<Rightarrow> None
                                    | Some s7 \<Rightarrow>
                                        Some (\<lparr>entry_path = p, entry_name = n,
                                               last_opened = t\<rparr>, s7))))))))\<close>

text \<open>The entries of a non-empty list from its first entry on; the fuel bounds their number.\<close>

fun parse_entries :: "nat \<Rightarrow> string \<Rightarrow> recent_entry list option" where
  "parse_entries 0 s = None"
| "parse_entries (Suc fuel) s =
     (case parse_entry s of
        None \<Rightarrow> None
      | Some (e, r) \<Rightarrow>
          (case r of
             [] \<Rightarrow> None
           | c # r1 \<Rightarrow>
               if c = CHR '']'' then (if r1 = [] then Some [e] else None)
               else if c = CHR '','' then
                 (case parse_entries fuel r1 of None \<Rightarrow> None | Some es \<Rightarrow> Some (e # es))
               else None))"

definition parse_recent_list :: "string \<Rightarrow> recent_entry list option" where
  "parse_recent_list s =
     (case s of
        [] \<Rightarrow> None
      | c # r \<Rightarrow>
          if c \<noteq> CHR ''['' then None
          else if r = '']'' then Some []
          else parse_entries (length r) r)"

section \<open>Concrete environments\<close>

text \<open>
  A home directory \<^verbatim>\<open>/home/u\<close> with no recent-files list yet, and one regular log file of
  three bytes.
\<close>

definition demo_env :: env where
  "demo_env =
     \<lparr>files = [''/tmp/a.log'' \<mapsto> \<lparr>st_size = 3, content = ''abc'', readable = True\<rparr>],
      getenv = [''HOME'' \<mapsto> ''/home/u''],
      malloc_ok = (\<lambda>n. True),
      fopen_w_ok = (\<lambda>p. True),
      clock_ms = 1700000000123\<rparr>"

text \<open>
  The same, with two regular log files one byte over the limit of \<^verbatim>\<open>MAX_FILE_SIZE\<close>: one
  that the process may read and one that it may not.
\<close>

definition big_env :: env where
  "big_env =
     demo_env\<lparr>files :=
       [''/var/log/big.log'' \<mapsto>
          \<lparr>st_size = 10485761, content = replicate 10485761 (CHR ''x''), readable = True\<rparr>,
        ''/var/log/locked.log'' \<mapsto>
          \<lparr>st_size = 10485761, content = replicate 10485761 (CHR ''x''), readable = False\<rparr>]\<rparr>"


text \<open>A recent-files list of three bytes, the second of which is a zero byte.\<close>

definition nul_env :: env where
  "nul_env =
     demo_env\<lparr>files :=
       [''/home/u/.mocha/recent.json'' \<mapsto>
          \<lparr>st_size = 3, content = [CHR ''['', CHR 0x00, CHR '']''], readable = True\<rparr>]\<rparr>"

text \<open>
  A process that is granted no memory: every \<^verbatim>\<open>malloc\<close> returns a null pointer. It has the
  log file of three bytes and a recent-files list with one entry.
\<close>

definition nomem_env :: env where
  \<open>nomem_env =
     demo_env\<lparr>files :=
       [''/tmp/a.log'' \<mapsto> \<lparr>st_size = 3, content = ''abc'', readable = True\<rparr>,
        ''/home/u/.mocha/recent.json'' \<mapsto>
          \<lparr>st_size = 65,
           content = ''[{"path":"/tmp/a.log","name":"a.log","lastOpened":1700000000000}]'',
           readable = True\<rparr>],
       malloc_ok := (\<lambda>n. False)\<rparr>\<close>

section \<open>Formatted numbers\<close>

lemma dec_nat_length: "n < 10 ^ k \<Longrightarrow> 0 < k \<Longrightarrow> length (dec_nat n) \<le> k"
proof (induction n arbitrary: k rule: dec_nat.induct)
  case (1 n)
  show ?case
  proof (cases "n < 10")
    case True
    then show ?thesis using "1.prems" by (simp add: dec_nat.simps[of n])
  next
    case False
    obtain j where k: "k = Suc j" using "1.prems"(2) by (cases k) auto
    have "j \<noteq> 0" using False "1.prems"(1) k by (cases j) auto
    moreover have "n div 10 < 10 ^ j"
      using "1.prems"(1) k by (simp add: less_mult_imp_div_less mult.commute)
    ultimately have "length (dec_nat (n div 10)) \<le> j"
      using "1.IH"[OF False, of j] by simp
    then show ?thesis using False k by (simp add: dec_nat.simps[of n])
  qed
qed

lemma fmt_ld_length: "- (2 ^ 64) < i \<Longrightarrow> i < 2 ^ 64 \<Longrightarrow> length (fmt_ld i) \<le> 21"
proof -
  assume a: "- (2 ^ 64) < i" "i < 2 ^ 64"
  have "nat \<bar>i\<bar> < 10 ^ 20" using a by simp
  then have "length (dec_nat (nat \<bar>i\<bar>)) \<le> 20" by (rule dec_nat_length) simp
  then show ?thesis by (auto simp: fmt_ld_def abs_if split: if_splits)
qed

lemma fmt_ld_sint_length: "length (fmt_ld (sint (w :: 64 word))) \<le> 21"
  using sint_ge[of w] sint_lt[of w] by (intro fmt_ld_length) simp_all

lemma hexval_digits_all:
  "list_all (\<lambda>n. hexval (''0123456789abcdef'' ! n) = Some n) [0..<16]"
  by code_simp

lemma hexval_digit: "n < 16 \<Longrightarrow> hexval (''0123456789abcdef'' ! n) = Some n"
  using hexval_digits_all by (simp add: list_all_iff)

lemma fmt_04x_byte:
  "n < 256 \<Longrightarrow>
   fmt_04x n =
     [CHR ''0'', CHR ''0'', ''0123456789abcdef'' ! (n div 16), ''0123456789abcdef'' ! (n mod 16)]"
  apply (cases "n < 16")
   apply (simp add: fmt_04x_def hex_nat.simps[of n] numeral_3_eq_3)
  apply (simp add: fmt_04x_def hex_nat.simps[of n] hex_nat.simps[of "n div 16"] numeral_2_eq_2)
  done

lemma hex4_fmt_04x: "n < 256 \<Longrightarrow> hex4 (fmt_04x n @ r) = Some (n, r)"
proof -
  assume n: "n < 256"
  have z: "hexval (CHR ''0'') = Some 0" by (simp add: hexval_def)
  have a: "hexval (''0123456789abcdef'' ! (n div 16)) = Some (n div 16)"
    using n by (intro hexval_digit) simp
  have b: "hexval (''0123456789abcdef'' ! (n mod 16)) = Some (n mod 16)"
    by (intro hexval_digit) simp
  show ?thesis
    by (simp add: fmt_04x_byte[OF n] hex4_def z a b)
qed

section \<open>Escaping and reading back\<close>

lemma json_char_escape_byte: "json_char (escape_byte c @ X) = Some ([c], X)"
proof -
  consider (special) "c \<in> {CHR 0x22, CHR 0x5C, CHR 0x08, CHR 0x0C, CHR 0x0A, CHR 0x0D, CHR 0x09}"
    | (control) "c \<notin> {CHR 0x22, CHR 0x5C, CHR 0x08, CHR 0x0C, CHR 0x0A, CHR 0x0D, CHR 0x09}"
        "of_char c < (32::nat)"
    | (plain) "c \<notin> {CHR 0x22, CHR 0x5C, CHR 0x08, CHR 0x0C, CHR 0x0A, CHR 0x0D, CHR 0x09}"
        "\<not> of_char c < (32::nat)"
    by blast
  then show ?thesis
  proof cases
    case special
    then show ?thesis
      by (auto simp: escape_byte_def json_char_def)
  next
    case control
    have n: "(of_char c :: nat) < 256" by simp
    have "utf8_encode (of_char c) = [c]"
      using control(2) by (simp add: utf8_encode_def)
    then show ?thesis
      using control by (simp add: escape_byte_def json_char_def hex4_fmt_04x[OF n])
  next
    case plain
    then show ?thesis
      by (simp add: escape_byte_def json_char_def)
  qed
qed

lemma escape_byte_head: "\<exists>a as. escape_byte c = a # as \<and> a \<noteq> CHR 0x22"
  by (simp add: escape_byte_def)

lemma json_read_string_escape_byte:
  "json_read_string (escape_byte c @ X) =
     (case json_read_string X of None \<Rightarrow> None | Some (s, r) \<Rightarrow> Some (c # s, r))"
proof -
  obtain a as where e: "escape_byte c = a # as" and a: "a \<noteq> CHR 0x22"
    using escape_byte_head by blast
  have "json_char (a # as @ X) = Some ([c], X)"
    using json_char_escape_byte[of c X] by (simp add: e)
  then show ?thesis
    using a by (simp add: e split: option.splits)
qed

lemma json_read_string_escape:
  "json_read_string (json_escape_loop bs @ CHR 0x22 # rest) = Some (bs, rest)"
  by (induction bs) (simp_all add: json_read_string_escape_byte)

text \<open>
  Claim C6. For every byte sequence, escaping it with \<^verbatim>\<open>json_escape\<close> and reading the result
  back as a JSON string (between its quotes, with the standard decoding) gives the original
  byte sequence exactly. The escaping is that of the claim: \<open>escape_byte\<close> writes a two-byte
  escape for the quote, the backslash, backspace, form feed, newline, carriage return and tab, a
  \<^verbatim>\<open>\u00XX\<close> escape for every other byte below 32, and the byte itself from 32 on.
\<close>

theorem json_escape_round_trip:
  "json_escape env bs = Some escaped \<Longrightarrow>
   json_decode_string ([CHR 0x22] @ escaped @ [CHR 0x22]) = Some bs"
  by (auto simp: json_escape_def json_decode_string_def json_read_string_escape split: if_splits)

theorem json_escape_round_trip_witness:
  "json_escape demo_env [CHR 0x22, CHR 0x5C, CHR 0x0A, CHR 0x09, CHR 0x01, CHR ''a'', CHR 0xFF]
     = Some ([CHR 0x5C, CHR 0x22, CHR 0x5C, CHR 0x5C, CHR 0x5C, CHR ''n'', CHR 0x5C, CHR ''t'',
              CHR 0x5C] @ ''u0001a'' @ [CHR 0xFF])
   \<and> json_decode_string
         ([CHR 0x22] @
          ([CHR 0x5C, CHR 0x22, CHR 0x5C, CHR 0x5C, CHR 0x5C, CHR ''n'', CHR 0x5C, CHR ''t'',
            CHR 0x5C] @ ''u0001a'' @ [CHR 0xFF]) @
          [CHR 0x22])
     = Some [CHR 0x22, CHR 0x5C, CHR 0x0A, CHR 0x09, CHR 0x01, CHR ''a'', CHR 0xFF]"
proof -
  have h: "json_escape demo_env
             [CHR 0x22, CHR 0x5C, CHR 0x0A, CHR 0x09, CHR 0x01, CHR ''a'', CHR 0xFF]
           = Some ([CHR 0x5C, CHR 0x22, CHR 0x5C, CHR 0x5C, CHR 0x5C, CHR ''n'', CHR 0x5C,
                    CHR ''t'', CHR 0x5C] @ ''u0001a'' @ [CHR 0xFF])"
    by (simp add: json_escape_def demo_env_def escape_byte_def fmt_04x_byte)
  show ?thesis
    using h json_escape_round_trip[OF h] by simp
qed

section \<open>\<^verbatim>\<open>read_file\<close>: the two success payloads and the failures\<close>

lemma escape_byte_no_nul: "CHR 0x00 \<notin> set (escape_byte c)"
proof (cases "of_char c < (32::nat)")
  case True
  have n: "(of_char c :: nat) < 256" by simp
  have d: "(of_char c :: nat) div 16 < 16" "(of_char c :: nat) mod 16 < 16"
    using n by (simp_all add: less_mult_imp_div_less)
  have "list_all (\<lambda>n. CHR 0x00 \<noteq> ''0123456789abcdef'' ! n) [0..<16]" by code_simp
  then have "\<And>k. k < 16 \<Longrightarrow> CHR 0x00 \<noteq> ''0123456789abcdef'' ! k"
    by (simp add: list_all_iff)
  then show ?thesis
    using d True by (simp add: escape_byte_def fmt_04x_byte[OF n] del: nth_Cons_numeral)
next
  case False
  then have "c \<noteq> CHR 0x00" by auto
  then show ?thesis using False by (simp add: escape_byte_def)
qed

lemma cstr_json_escape_loop: "cstr (json_escape_loop bs) = json_escape_loop bs"
proof -
  have "CHR 0x00 \<notin> set (json_escape_loop bs)"
    by (induction bs) (simp_all add: escape_byte_no_nul)
  then show ?thesis
    unfolding cstr_def by (simp add: takeWhile_eq_all_conv) metis
qed

text \<open>
  The bytes that \<^verbatim>\<open>fread\<close> returns after the \<^verbatim>\<open>fseek\<close> are the bytes of the file at the
  positions of the range: short when the file holds fewer bytes than its size says.
\<close>

lemma bytes_in_range_enumerate:
  "map snd (filter (\<lambda>(i, b). lo \<le> int i \<and> int i < hi) (enumerate n bs))
     = take (nat (hi - max (int n) lo)) (drop (nat (lo - int n)) bs)"
proof (induction bs arbitrary: n)
  case Nil
  show ?case by simp
next
  case (Cons x xs)
  have ih: "map snd (filter (\<lambda>(i, b). lo \<le> int i \<and> int i < hi) (enumerate (Suc n) xs))
      = take (nat (hi - max (int n + 1) lo)) (drop (nat (lo - int n - 1)) xs)"
    using Cons.IH[of "Suc n"] by (simp add: algebra_simps)
  show ?case
  proof (cases "lo \<le> int n")
    case True
    then have z: "nat (lo - int n) = 0" "nat (lo - int n - 1) = 0"
      "max (int n) lo = int n" "max (int n + 1) lo = int n + 1" by simp_all
    show ?thesis
    proof (cases "int n < hi")
      case True
      then have "nat (hi - int n) = Suc (nat (hi - (int n + 1)))" by simp
      then show ?thesis using True \<open>lo \<le> int n\<close> ih z by simp
    next
      case False
      then have "nat (hi - int n) = 0" "nat (hi - (int n + 1)) = 0" by simp_all
      then show ?thesis using False ih z by simp
    qed
  next
    case False
    then have "nat (lo - int n) = Suc (nat (lo - int n - 1))"
      "max (int n) lo = lo" "max (int n + 1) lo = lo" by simp_all
    then show ?thesis using False ih by simp
  qed
qed

lemma bytes_in_range_take_drop:
  "bytes_in_range bs lo hi = take (nat (hi - max 0 lo)) (drop (nat lo) bs)"
  using bytes_in_range_enumerate[of lo hi 0 bs] by (simp add: bytes_in_range_def)


lemma bytes_in_range_from_start:
  "lo \<le> 0 \<Longrightarrow> bytes_in_range bs lo (int n) = take n bs"
  by (simp add: bytes_in_range_take_drop max_def)

lemma fread_after_fseek:
  "take (nat (hi - (if 0 < lo then lo else 0))) (drop (nat (if 0 < lo then lo else 0)) bs)
     = bytes_in_range bs lo hi"
  by (simp add: bytes_in_range_take_drop max_def)

lemma read_file_no_growth:
  assumes "path \<noteq> []" and "files env path = Some f"
    and "0 < sint off" and "int (st_size f) \<le> sint off"
  shows \<open>read_file env path off =
           ''{"success":true,"content":"","size":'' @ fmt_ld (int (st_size f)) @
           '',"prevSize":'' @ fmt_ld (sint off) @ ''}''\<close>
proof -
  have "sint off < 2 ^ 63" using sint_lt[of off] by simp
  then have "length (fmt_ld (int (st_size f))) \<le> 21"
    using assms(4) by (intro fmt_ld_length) simp_all
  moreover note fmt_ld_sint_length[of off]
  ultimately show ?thesis
    using assms by (simp add: read_file_def stat_size_def snprintf_def)
qed

lemma read_file_full:
  assumes "path \<noteq> []" and "files env path = Some f" and "readable f"
    and "\<not> (0 < sint off \<and> int (st_size f) \<le> sint off)"
    and "int (st_size f) - max 0 (sint off) \<le> MAX_FILE_SIZE"
    and "malloc_ok env (nat (int (st_size f) - max 0 (sint off) + 1))"
    and "malloc_ok env
           (length (bytes_in_range (content f) (sint off) (int (st_size f))) * 6 + 1)"
    and "malloc_ok env
           (length (json_escape_loop
              (bytes_in_range (content f) (sint off) (int (st_size f)))) +
            length path + length (extract_filename path) + 256)"
  shows \<open>read_file env path off =
           ''{"success":true,"content":"'' @
           json_escape_loop (bytes_in_range (content f) (sint off) (int (st_size f))) @
           ''","path":"'' @ path @ ''","name":"'' @ extract_filename path @
           ''","size":'' @ fmt_ld (int (st_size f)) @
           '',"prevSize":'' @ fmt_ld (sint off) @ ''}''\<close>
proof -
  have "sint off < 2 ^ 63" using sint_lt[of off] by simp
  then have "int (st_size f) < 2 ^ 64"
    using assms(5) by (simp add: MAX_FILE_SIZE_def max_def split: if_splits)
  then have l1: "length (fmt_ld (int (st_size f))) \<le> 21"
    by (intro fmt_ld_length) simp_all
  note l2 = fmt_ld_sint_length[of off]
  have mx: "max 0 (sint off) = (if 0 < sint off then sint off else 0)" by (simp add: max_def)
  show ?thesis
    using assms l1 l2 unfolding mx
    by (simp add: read_file_def stat_size_def fopen_r_def Let_def fread_after_fseek
        json_escape_def cstr_json_escape_loop snprintf_def)
qed

lemma read_file_failures:
  shows "path = [] \<Longrightarrow> \<not> is_success (read_file env path off)"
    and "files env path = None \<Longrightarrow> \<not> is_success (read_file env path off)"
    and "files env path = Some f \<Longrightarrow>
         \<not> (0 < sint off \<and> int (st_size f) \<le> sint off) \<Longrightarrow>
         \<not> readable f \<or> \<not> int (st_size f) - max 0 (sint off) \<le> MAX_FILE_SIZE
         \<or> \<not> malloc_ok env (nat (int (st_size f) - max 0 (sint off) + 1))
         \<or> \<not> malloc_ok env
           (length (bytes_in_range (content f) (sint off) (int (st_size f))) * 6 + 1)
         \<or> \<not> malloc_ok env
           (length (json_escape_loop
              (bytes_in_range (content f) (sint off) (int (st_size f)))) +
            length path + length (extract_filename path) + 256) \<Longrightarrow>
         \<not> is_success (read_file env path off)"
proof -
  show "path = [] \<Longrightarrow> \<not> is_success (read_file env path off)"
    by (simp add: read_file_def is_success_def)
  show "files env path = None \<Longrightarrow> \<not> is_success (read_file env path off)"
    by (simp add: read_file_def is_success_def stat_size_def Let_def)
  assume f: "files env path = Some f"
    and ng: "\<not> (0 < sint off \<and> int (st_size f) \<le> sint off)"
    and bad: "\<not> readable f \<or> \<not> int (st_size f) - max 0 (sint off) \<le> MAX_FILE_SIZE
         \<or> \<not> malloc_ok env (nat (int (st_size f) - max 0 (sint off) + 1))
         \<or> \<not> malloc_ok env
           (length (bytes_in_range (content f) (sint off) (int (st_size f))) * 6 + 1)
         \<or> \<not> malloc_ok env
           (length (json_escape_loop
              (bytes_in_range (content f) (sint off) (int (st_size f)))) +
            length path + length (extract_filename path) + 256)"
  show "\<not> is_success (read_file env path off)"
  proof (cases "path = []")
    case True
    then show ?thesis by (simp add: read_file_def is_success_def)
  next
    case False
    show ?thesis
    proof (cases "0 < sint off")
      case True
      have tk: "take (nat (int (st_size f) - sint off)) (drop (nat (sint off)) (content f))
          = bytes_in_range (content f) (sint off) (int (st_size f))"
        using True fread_after_fseek[where lo="sint off" and hi="int (st_size f)" and bs="content f"] by simp
      have mx: "max 0 (sint off) = sint off" using True by simp
      show ?thesis
        using f ng bad True \<open>path \<noteq> []\<close> unfolding mx
        by (auto simp add: read_file_def is_success_def stat_size_def fopen_r_def Let_def
            tk json_escape_def cstr_json_escape_loop)
    next
      case False
      have tk: "take (st_size f) (content f)
          = bytes_in_range (content f) (sint off) (int (st_size f))"
        using False fread_after_fseek[where lo="sint off" and hi="int (st_size f)" and bs="content f"] by simp
      have mx: "max 0 (sint off) = 0" using False by simp
      show ?thesis
        using f ng bad False \<open>path \<noteq> []\<close> unfolding mx
        by (auto simp add: read_file_def is_success_def stat_size_def fopen_r_def Let_def
            tk json_escape_def cstr_json_escape_loop)
    qed
  qed
qed

lemma read_file_success_conditions:
  assumes "is_success (read_file env path off)"
  shows "\<exists>f. path \<noteq> [] \<and> files env path = Some f \<and>
           ((0 < sint off \<and> int (st_size f) \<le> sint off) \<or>
            (\<not> (0 < sint off \<and> int (st_size f) \<le> sint off) \<and> readable f \<and>
             int (st_size f) - max 0 (sint off) \<le> MAX_FILE_SIZE \<and>
             malloc_ok env (nat (int (st_size f) - max 0 (sint off) + 1)) \<and>
             malloc_ok env
               (length (bytes_in_range (content f) (sint off) (int (st_size f))) * 6 + 1) \<and>
             malloc_ok env
               (length (json_escape_loop
                  (bytes_in_range (content f) (sint off) (int (st_size f)))) +
                length path + length (extract_filename path) + 256)))"
proof -
  have p: "path \<noteq> []" using assms read_file_failures(1) by blast
  obtain f where f: "files env path = Some f"
    using assms read_file_failures(2)[of env path off] by (cases "files env path") auto
  show ?thesis
    using assms p f read_file_failures(3)[OF f, of off] by (intro exI[of _ f]) blast
qed



text \<open>
  Claim C2, as amended. Every success payload of \<^verbatim>\<open>read_file\<close> carries the two sizes
  under the names \<^verbatim>\<open>size\<close> and \<^verbatim>\<open>prevSize\<close>: it is
  \<^verbatim>\<open>{"success":true,"content":"","size":S,"prevSize":O}\<close> on the no-growth path and
  \<^verbatim>\<open>{"success":true,"content":C,"path":P,"name":N,"size":S,"prevSize":O}\<close> on a read. The
  names \<^verbatim>\<open>currentSize\<close> and \<^verbatim>\<open>previousOffset\<close> of the claim occur in no payload; the
  counterexample is the payload of a first read.
\<close>

theorem read_file_field_names:
  assumes "is_success (read_file env path off)" and "files env path = Some f"
  shows \<open>read_file env path off =
            ''{"success":true,"content":"","size":'' @ fmt_ld (int (st_size f)) @
            '',"prevSize":'' @ fmt_ld (sint off) @ ''}''
         \<or> read_file env path off =
            ''{"success":true,"content":"'' @
            json_escape_loop (bytes_in_range (content f) (sint off) (int (st_size f))) @
            ''","path":"'' @ path @ ''","name":"'' @ extract_filename path @
            ''","size":'' @ fmt_ld (int (st_size f)) @
            '',"prevSize":'' @ fmt_ld (sint off) @ ''}''\<close>
proof -
  from read_file_success_conditions[OF assms(1)] assms(2)
  have p: "path \<noteq> []"
    and c: "(0 < sint off \<and> int (st_size f) \<le> sint off) \<or>
            (\<not> (0 < sint off \<and> int (st_size f) \<le> sint off) \<and> readable f \<and>
             int (st_size f) - max 0 (sint off) \<le> MAX_FILE_SIZE \<and>
             malloc_ok env (nat (int (st_size f) - max 0 (sint off) + 1)) \<and>
             malloc_ok env
               (length (bytes_in_range (content f) (sint off) (int (st_size f))) * 6 + 1) \<and>
             malloc_ok env
               (length (json_escape_loop
                  (bytes_in_range (content f) (sint off) (int (st_size f)))) +
                length path + length (extract_filename path) + 256))"
    by auto
  from c show ?thesis
  proof
    assume "0 < sint off \<and> int (st_size f) \<le> sint off"
    then show ?thesis
      using read_file_no_growth[OF p assms(2), of off] by blast
  next
    assume "\<not> (0 < sint off \<and> int (st_size f) \<le> sint off) \<and> readable f \<and>
             int (st_size f) - max 0 (sint off) \<le> MAX_FILE_SIZE \<and>
             malloc_ok env (nat (int (st_size f) - max 0 (sint off) + 1)) \<and>
             malloc_ok env
               (length (bytes_in_range (content f) (sint off) (int (st_size f))) * 6 + 1) \<and>
             malloc_ok env
               (length (json_escape_loop
                  (bytes_in_range (content f) (sint off) (int (st_size f)))) +
                length path + length (extract_filename path) + 256)"
    then show ?thesis
      using read_file_full[OF p assms(2), of off] by blast
  qed
qed

theorem read_file_field_names_witness:
  \<open>is_success (read_file demo_env ''/tmp/a.log'' 3) \<and>
   files demo_env ''/tmp/a.log'' = Some \<lparr>st_size = 3, content = ''abc'', readable = True\<rparr> \<and>
   (read_file demo_env ''/tmp/a.log'' 3 = ''{"success":true,"content":"","size":3,"prevSize":3}''
    \<or> read_file demo_env ''/tmp/a.log'' 3 =
        ''{"success":true,"content":"","path":"/tmp/a.log","name":"a.log","size":3,"prevSize":3}'')\<close>
proof -
  have s: "is_success (read_file demo_env ''/tmp/a.log'' 3)" by code_simp
  have f: "files demo_env ''/tmp/a.log'' =
      Some \<lparr>st_size = 3, content = ''abc'', readable = True\<rparr>"
    by (simp add: demo_env_def)
  have e: "fmt_ld 3 = ''3''" "extract_filename ''/tmp/a.log'' = ''a.log''"
    "bytes_in_range ''abc'' 3 3 = []" by code_simp+
  show ?thesis
    using s f read_file_field_names[OF s f] by (simp add: e)
qed

theorem read_file_field_names_counterexample:
  \<open>read_file demo_env ''/tmp/a.log'' 0 =
     ''{"success":true,"content":"abc","path":"/tmp/a.log","name":"a.log","size":3,"prevSize":0}''
   \<and> is_success (read_file demo_env ''/tmp/a.log'' 0)
   \<and> \<not> occurs_in ''currentSize'' (read_file demo_env ''/tmp/a.log'' 0)
   \<and> \<not> occurs_in ''previousOffset'' (read_file demo_env ''/tmp/a.log'' 0)\<close>
  by code_simp

text \<open>
  Claim C3. For a call with a positive offset on a path that \<^verbatim>\<open>stat\<close> finds, with a size
  that is at most the offset (no growth, or a file that shrank or was rotated: the code does
  not tell them apart), the answer is the success payload with empty content, the size of the
  file and the supplied offset, and with no \<^verbatim>\<open>path\<close> and no \<^verbatim>\<open>name\<close> member. The file
  need not be readable: the answer is given before the file is opened.
\<close>

theorem read_file_not_grown:
  assumes "path \<noteq> []" and "files env path = Some f"
    and "0 < sint off" and "int (st_size f) \<le> sint off"
  shows \<open>read_file env path off =
           ''{"success":true,"content":"","size":'' @ fmt_ld (int (st_size f)) @
           '',"prevSize":'' @ fmt_ld (sint off) @ ''}''\<close>
  using assms by (rule read_file_no_growth)

theorem read_file_not_grown_witness:
  \<open>''/tmp/a.log'' \<noteq> [] \<and>
   files demo_env ''/tmp/a.log'' = Some \<lparr>st_size = 3, content = ''abc'', readable = True\<rparr> \<and>
   0 < sint (5 :: 64 word) \<and> int 3 \<le> sint (5 :: 64 word) \<and>
   read_file demo_env ''/tmp/a.log'' 5 = ''{"success":true,"content":"","size":3,"prevSize":5}''\<close>
proof -
  have f: "files demo_env ''/tmp/a.log'' =
      Some \<lparr>st_size = 3, content = ''abc'', readable = True\<rparr>"
    by (simp add: demo_env_def)
  have e: "fmt_ld 3 = ''3''" "fmt_ld 5 = ''5''" by code_simp+
  show ?thesis
    using f read_file_not_grown[of "''/tmp/a.log''" demo_env _ 5, OF _ f] by (simp add: e)
qed

text \<open>
  Claim C4, as amended. The read window, the size of the file less the start of the read, is
  computed once the file is open: \<^verbatim>\<open>fopen\<close> (line 92) comes before the check of the
  window (line 102). So for a non-empty path that \<^verbatim>\<open>stat\<close> finds, with a window over
  \<^verbatim>\<open>MAX_FILE_SIZE\<close> (10 MiB): when the file can be opened for reading the answer is the
  failure payload with the reason \<^verbatim>\<open>File too large (max 10MB)\<close>; when it cannot, the answer
  is the failure payload with the reason \<^verbatim>\<open>Cannot open file\<close>. Neither carries any
  content. The counterexample to the claim as it stands is a file over the limit that the
  process may not read.
\<close>

theorem read_file_too_large:
  assumes "path \<noteq> []" and "files env path = Some f"
    and "MAX_FILE_SIZE < int (st_size f) - (if 0 < sint off then sint off else 0)"
  shows \<open>read_file env path off =
           (if readable f then ''{"success":false,"error":"File too large (max 10MB)"}''
            else ''{"success":false,"error":"Cannot open file"}'') \<and>
         \<not> is_success (read_file env path off)\<close>
proof -
  have "0 < sint off \<Longrightarrow> \<not> int (st_size f) \<le> sint off"
    using assms(3) by (auto simp: MAX_FILE_SIZE_def)
  then have \<open>read_file env path off =
           (if readable f then ''{"success":false,"error":"File too large (max 10MB)"}''
            else ''{"success":false,"error":"Cannot open file"}'')\<close>
    using assms
    by (cases "0 < sint off") (simp_all add: read_file_def stat_size_def fopen_r_def Let_def)
  then show ?thesis
    by (simp add: is_success_def)
qed

theorem read_file_too_large_witness:
  \<open>''/var/log/big.log'' \<noteq> [] \<and>
   files big_env ''/var/log/big.log'' =
     Some \<lparr>st_size = 10485761, content = replicate 10485761 (CHR ''x''), readable = True\<rparr> \<and>
   MAX_FILE_SIZE < int 10485761 - 0 \<and>
   read_file big_env ''/var/log/big.log'' 0 =
     ''{"success":false,"error":"File too large (max 10MB)"}'' \<and>
   \<not> is_success (read_file big_env ''/var/log/big.log'' 0)\<close>
proof -
  have f: "files big_env ''/var/log/big.log'' =
     Some \<lparr>st_size = 10485761, content = replicate 10485761 (CHR ''x''), readable = True\<rparr>"
    by (simp add: big_env_def)
  have m: "MAX_FILE_SIZE < int 10485761 - 0"
    by (simp add: MAX_FILE_SIZE_def)
  show ?thesis
    using f m read_file_too_large[of "''/var/log/big.log''" big_env _ 0, OF _ f]
    by (simp add: MAX_FILE_SIZE_def is_success_def)
qed

theorem read_file_too_large_counterexample:
  \<open>''/var/log/locked.log'' \<noteq> [] \<and>
   files big_env ''/var/log/locked.log'' =
     Some \<lparr>st_size = 10485761, content = replicate 10485761 (CHR ''x''), readable = False\<rparr> \<and>
   MAX_FILE_SIZE < int 10485761 - 0 \<and>
   read_file big_env ''/var/log/locked.log'' 0 = ''{"success":false,"error":"Cannot open file"}'' \<and>
   read_file big_env ''/var/log/locked.log'' 0 \<noteq>
     ''{"success":false,"error":"File too large (max 10MB)"}''\<close>
proof -
  have f: "files big_env ''/var/log/locked.log'' =
     Some \<lparr>st_size = 10485761, content = replicate 10485761 (CHR ''x''), readable = False\<rparr>"
    by (simp add: big_env_def)
  have r: \<open>read_file big_env ''/var/log/locked.log'' 0 =
      ''{"success":false,"error":"Cannot open file"}''\<close>
    using f by (simp add: read_file_def stat_size_def fopen_r_def Let_def)
  show ?thesis
    using f by (simp add: r MAX_FILE_SIZE_def)
qed

lemma read_file_from_start:
  assumes "sint off \<le> 0" and "path \<noteq> []" and "files env path = Some f" and "readable f"
    and "int (st_size f) \<le> MAX_FILE_SIZE"
    and "malloc_ok env (st_size f + 1)"
    and "malloc_ok env (length (take (st_size f) (content f)) * 6 + 1)"
    and "malloc_ok env
           (length (json_escape_loop (take (st_size f) (content f))) + length path +
            length (extract_filename path) + 256)"
  shows \<open>read_file env path off =
           ''{"success":true,"content":"'' @
           json_escape_loop (take (st_size f) (content f)) @
           ''","path":"'' @ path @ ''","name":"'' @ extract_filename path @
           ''","size":'' @ fmt_ld (int (st_size f)) @
           '',"prevSize":'' @ fmt_ld (sint off) @ ''}''\<close>
proof -
  have b: "bytes_in_range (content f) (sint off) (int (st_size f)) = take (st_size f) (content f)"
    using assms(1) by (rule bytes_in_range_from_start)
  have n: "nat (int (st_size f) - max 0 (sint off) + 1) = st_size f + 1"
    using assms(1) by simp
  have m: "int (st_size f) - max 0 (sint off) \<le> MAX_FILE_SIZE"
    using assms(1,5) by simp
  have ng: "\<not> (0 < sint off \<and> int (st_size f) \<le> sint off)"
    using assms(1) by simp
  show ?thesis
    using read_file_full[OF assms(2,3,4) ng m] assms(6,7,8) unfolding b n by simp
qed




lemma read_file_nonpos_failure:
  assumes "sint off \<le> 0" and "path \<noteq> []" and "files env path = Some f"
    and "\<not> readable f \<or> \<not> int (st_size f) \<le> MAX_FILE_SIZE
         \<or> \<not> malloc_ok env (st_size f + 1)
         \<or> \<not> malloc_ok env (length (take (st_size f) (content f)) * 6 + 1)
         \<or> \<not> malloc_ok env
           (length (json_escape_loop (take (st_size f) (content f))) + length path +
            length (extract_filename path) + 256)"
  shows "read_file env path off = read_file env path 0"
proof -
  have n: "nat (int (st_size f) + 1) = Suc (st_size f)" by simp
  show ?thesis
    using assms
    by (auto simp add: read_file_def stat_size_def fopen_r_def Let_def n
          json_escape_def cstr_json_escape_loop)
qed

text \<open>
  Claim C9, as amended. For every path and every offset at or below 0, \<^verbatim>\<open>read_file\<close>
  fails exactly when it fails at offset 0, with the same answer; when it succeeds, the
  no-growth path is not taken, the read starts at byte 0 and the payload holds the whole file
  (its bytes from byte 0 up to its size), and it is the payload of offset 0 but for its last
  member: \<^verbatim>\<open>prevSize\<close> repeats the supplied offset, so that the two answers differ when the
  offset is negative.
\<close>

theorem read_file_nonpositive_offset:
  assumes "sint off \<le> 0"
  shows \<open>read_file env path off =
           (if is_success (read_file env path 0)
            then butlast (butlast (read_file env path 0)) @ fmt_ld (sint off) @ ''}''
            else read_file env path 0) \<and>
         (\<forall>f. is_success (read_file env path off) \<and> files env path = Some f \<longrightarrow>
            read_file env path off =
              ''{"success":true,"content":"'' @
              json_escape_loop (take (st_size f) (content f)) @
              ''","path":"'' @ path @ ''","name":"'' @ extract_filename path @
              ''","size":'' @ fmt_ld (int (st_size f)) @
              '',"prevSize":'' @ fmt_ld (sint off) @ ''}'')\<close>
proof -
  have z: "fmt_ld 0 = ''0''" by code_simp
  have ok_full: \<open>read_file env path w =
           ''{"success":true,"content":"'' @
           json_escape_loop (take (st_size f) (content f)) @
           ''","path":"'' @ path @ ''","name":"'' @ extract_filename path @
           ''","size":'' @ fmt_ld (int (st_size f)) @
           '',"prevSize":'' @ fmt_ld (sint w) @ ''}''\<close>
    if "sint w \<le> 0" "path \<noteq> []" "files env path = Some f"
      "readable f \<and> int (st_size f) \<le> MAX_FILE_SIZE
         \<and> malloc_ok env (st_size f + 1)
         \<and> malloc_ok env (length (take (st_size f) (content f)) * 6 + 1)
         \<and> malloc_ok env
           (length (json_escape_loop (take (st_size f) (content f))) + length path +
            length (extract_filename path) + 256)" for w f
    using that by (intro read_file_from_start) simp_all
  have full: \<open>read_file env path w =
           ''{"success":true,"content":"'' @
           json_escape_loop (take (st_size f) (content f)) @
           ''","path":"'' @ path @ ''","name":"'' @ extract_filename path @
           ''","size":'' @ fmt_ld (int (st_size f)) @
           '',"prevSize":'' @ fmt_ld (sint w) @ ''}''\<close>
    if "sint w \<le> 0" "is_success (read_file env path w)" "files env path = Some f" for w f
  proof -
    have b: "bytes_in_range (content f) (sint w) (int (st_size f)) = take (st_size f) (content f)"
      using that(1) by (rule bytes_in_range_from_start)
    from read_file_success_conditions[OF that(2)] that(1,3)
    have "path \<noteq> []" "readable f" "int (st_size f) - max 0 (sint w) \<le> MAX_FILE_SIZE"
      "malloc_ok env (nat (int (st_size f) - max 0 (sint w) + 1))"
      "malloc_ok env
         (length (bytes_in_range (content f) (sint w) (int (st_size f))) * 6 + 1)"
      "malloc_ok env
         (length (json_escape_loop
            (bytes_in_range (content f) (sint w) (int (st_size f)))) +
          length path + length (extract_filename path) + 256)"
      by auto
    moreover have "nat (int (st_size f) - max 0 (sint w) + 1) = st_size f + 1"
      using that(1) by simp
    ultimately show ?thesis
      using that(1) unfolding b by (intro ok_full[OF that(1) _ that(3)]) simp_all
  qed
  have same: "is_success (read_file env path off) = is_success (read_file env path 0)"
  proof (cases "path \<noteq> [] \<and> (\<exists>f. files env path = Some f)")
    case False
    then show ?thesis
      using read_file_failures(1,2) by (cases "files env path") auto
  next
    case True
    then obtain f where p: "path \<noteq> []" and f: "files env path = Some f" by blast
    show ?thesis
    proof (cases "readable f \<and> int (st_size f) \<le> MAX_FILE_SIZE
         \<and> malloc_ok env (st_size f + 1)
         \<and> malloc_ok env (length (take (st_size f) (content f)) * 6 + 1)
         \<and> malloc_ok env
           (length (json_escape_loop (take (st_size f) (content f))) + length path +
            length (extract_filename path) + 256)")
      case False
      then show ?thesis
        using read_file_nonpos_failure[OF assms p f] by auto
    next
      case ok: True
      have "is_success (read_file env path w)" if "sint w \<le> 0" for w
        using ok_full[OF that p f ok] by (simp add: is_success_def)
      then show ?thesis using assms by simp
    qed
  qed
  have second: \<open>\<forall>f. is_success (read_file env path off) \<and> files env path = Some f \<longrightarrow>
            read_file env path off =
              ''{"success":true,"content":"'' @
              json_escape_loop (take (st_size f) (content f)) @
              ''","path":"'' @ path @ ''","name":"'' @ extract_filename path @
              ''","size":'' @ fmt_ld (int (st_size f)) @
              '',"prevSize":'' @ fmt_ld (sint off) @ ''}''\<close>
    using full[OF assms] by blast
  have first: \<open>read_file env path off =
           (if is_success (read_file env path 0)
            then butlast (butlast (read_file env path 0)) @ fmt_ld (sint off) @ ''}''
            else read_file env path 0)\<close>
  proof (cases "is_success (read_file env path 0)")
    case True
    then obtain f where f: "files env path = Some f"
      using read_file_success_conditions by blast
    have s: "is_success (read_file env path off)" using True same by simp
    show ?thesis
      using True full[OF assms s f] full[of 0, OF _ True f]
      by (simp add: z butlast_append)
  next
    case False
    then have ns: "\<not> is_success (read_file env path off)" using same by simp
    show ?thesis
    proof (cases "path \<noteq> [] \<and> (\<exists>f. files env path = Some f)")
      case False
      then show ?thesis
        by (cases "files env path")
          (auto simp: read_file_def stat_size_def Let_def is_success_def)
    next
      case True
      then obtain f where p: "path \<noteq> []" and f: "files env path = Some f" by blast
      have "\<not> readable f \<or> \<not> int (st_size f) \<le> MAX_FILE_SIZE
         \<or> \<not> malloc_ok env (st_size f + 1)
         \<or> \<not> malloc_ok env (length (take (st_size f) (content f)) * 6 + 1)
         \<or> \<not> malloc_ok env
           (length (json_escape_loop (take (st_size f) (content f))) + length path +
            length (extract_filename path) + 256)"
        using False ok_full[of 0, OF _ p f] by (auto simp: is_success_def)
      then show ?thesis
        using False read_file_nonpos_failure[OF assms p f] by simp
    qed
  qed
  show ?thesis using first second by blast
qed

theorem read_file_nonpositive_offset_witness:
  \<open>sint (- 1 :: 64 word) \<le> 0 \<and>
   read_file demo_env ''/tmp/a.log'' (- 1) =
     ''{"success":true,"content":"abc","path":"/tmp/a.log","name":"a.log","size":3,"prevSize":-1}''\<close>
proof -
  have h: "sint (- 1 :: 64 word) \<le> 0" by simp
  have r: \<open>read_file demo_env ''/tmp/a.log'' 0 =
     ''{"success":true,"content":"abc","path":"/tmp/a.log","name":"a.log","size":3,"prevSize":0}''\<close>
    by code_simp
  have e: "fmt_ld (- 1) = ''-1''" by code_simp
  show ?thesis
    using h read_file_nonpositive_offset[OF h, of demo_env "''/tmp/a.log''", THEN conjunct1]
    by (simp add: r e is_success_def)
qed

theorem read_file_nonpositive_offset_counterexample:
  \<open>sint (- 1 :: 64 word) \<le> 0 \<and>
   read_file demo_env ''/tmp/a.log'' (- 1) =
     ''{"success":true,"content":"abc","path":"/tmp/a.log","name":"a.log","size":3,"prevSize":-1}'' \<and>
   read_file demo_env ''/tmp/a.log'' 0 =
     ''{"success":true,"content":"abc","path":"/tmp/a.log","name":"a.log","size":3,"prevSize":0}'' \<and>
   read_file demo_env ''/tmp/a.log'' (- 1) \<noteq> read_file demo_env ''/tmp/a.log'' 0\<close>
  by code_simp

section \<open>What a raw path does to the reader\<close>

lemma hexval_not_quote: "hexval c = Some n \<Longrightarrow> c \<noteq> CHR 0x22"
  by (auto simp: hexval_def)

lemma hex4_Some:
  "hex4 s = Some (n, r) \<Longrightarrow> \<exists>a b c d. s = a # b # c # d # r \<and> CHR 0x22 \<notin> {a, b, c, d}"
  by (auto simp: hex4_def split: list.splits option.splits dest: hexval_not_quote)

lemma length_utf8_encode: "length (utf8_encode cp) \<le> 4"
  by (simp add: utf8_encode_def)

lemma json_char_step:
  assumes "json_char inp = Some (out, rest)"
  shows "(\<exists>c. inp = c # rest \<and> out = [c] \<and> c \<noteq> CHR 0x5C \<and> c \<noteq> CHR 0x22)
       \<or> (\<exists>used. inp = CHR 0x5C # used @ rest \<and> used \<noteq> [] \<and> length out \<le> length used \<and>
             (CHR 0x22 \<in> set used \<longrightarrow> used = [CHR 0x22] \<and> out = [CHR 0x22]))"
proof (cases inp)
  case Nil
  then show ?thesis using assms by (simp add: json_char_def)
next
  case (Cons c cs)
  show ?thesis
  proof (cases "c = CHR 0x5C")
    case False
    then show ?thesis
      using assms Cons by (auto simp: json_char_def split: if_splits)
  next
    case bs: True
    show ?thesis
    proof (cases cs)
      case Nil
      then show ?thesis using assms Cons bs by (simp add: json_char_def)
    next
      case (Cons e r)
      note cs = this
      show ?thesis
      proof (cases "e = CHR ''u''")
        case False
        then have "out \<in> {[CHR 0x22], [CHR 0x5C], [CHR ''/''], [CHR 0x08], [CHR 0x0C],
                      [CHR 0x0A], [CHR 0x0D], [CHR 0x09]} \<and> rest = r \<and>
                   (e = CHR 0x22 \<longrightarrow> out = [CHR 0x22])"
          using assms \<open>inp = c # cs\<close> bs cs by (auto simp: json_char_def split: if_splits)
        then have "inp = CHR 0x5C # [e] @ rest \<and> [e] \<noteq> [] \<and> length out \<le> length [e] \<and>
             (CHR 0x22 \<in> set [e] \<longrightarrow> [e] = [CHR 0x22] \<and> out = [CHR 0x22])"
          using \<open>inp = c # cs\<close> bs cs by auto
        then show ?thesis by blast
      next
        case u: True
        from assms \<open>inp = c # cs\<close> bs cs u
        obtain cp r1 where h1: "hex4 r = Some (cp, r1)"
          by (auto simp: json_char_def split: option.splits)
        then obtain a1 b1 c1 d1 where r: "r = a1 # b1 # c1 # d1 # r1"
          and q1: "CHR 0x22 \<notin> {a1, b1, c1, d1}"
          using hex4_Some by blast
        show ?thesis
        proof (cases "0xD800 \<le> cp \<and> cp < 0xDC00")
          case False
          then have "out = utf8_encode cp \<and> rest = r1"
            using assms \<open>inp = c # cs\<close> bs cs u h1
            by (auto simp: json_char_def split: if_splits)
          then have "inp = CHR 0x5C # [e, a1, b1, c1, d1] @ rest \<and> [e, a1, b1, c1, d1] \<noteq> [] \<and>
              length out \<le> length [e, a1, b1, c1, d1] \<and>
              (CHR 0x22 \<in> set [e, a1, b1, c1, d1] \<longrightarrow>
                 [e, a1, b1, c1, d1] = [CHR 0x22] \<and> out = [CHR 0x22])"
            using \<open>inp = c # cs\<close> bs cs u r q1 length_utf8_encode[of cp] by auto
          then show ?thesis by blast
        next
          case True
          from assms \<open>inp = c # cs\<close> bs cs u h1 True
          obtain r2 lo where r1: "r1 = CHR 0x5C # CHR ''u'' # r2" and h2: "hex4 r2 = Some (lo, rest)"
            and o: "out = utf8_encode (0x10000 + (cp - 0xD800) * 0x400 + (lo - 0xDC00))"
            by (auto simp: json_char_def split: list.splits if_splits option.splits)
          then obtain a2 b2 c2 d2 where r2: "r2 = a2 # b2 # c2 # d2 # rest"
            and q2: "CHR 0x22 \<notin> {a2, b2, c2, d2}"
            using hex4_Some by blast
          let ?used = "[e, a1, b1, c1, d1, CHR 0x5C, CHR ''u'', a2, b2, c2, d2]"
          have "inp = CHR 0x5C # ?used @ rest \<and> ?used \<noteq> [] \<and> length out \<le> length ?used \<and>
              (CHR 0x22 \<in> set ?used \<longrightarrow> ?used = [CHR 0x22] \<and> out = [CHR 0x22])"
            using \<open>inp = c # cs\<close> bs cs u r q1 r1 r2 q2 o
              length_utf8_encode[of "0x10000 + (cp - 0xD800) * 0x400 + (lo - 0xDC00)"]
            by auto
          then show ?thesis by blast
        qed
      qed
    qed
  qed
qed


lemma json_read_string_lag:
  "json_read_string (s @ CHR 0x22 # CHR '','' # CHR 0x22 # t) = Some (w @ s, r) \<Longrightarrow>
   w = [] \<and> CHR 0x22 \<notin> set s \<and> CHR 0x5C \<notin> set s"
proof (induction "length s" arbitrary: s w rule: less_induct)
  case less
  let ?tail = "CHR 0x22 # CHR '','' # CHR 0x22 # t"
  show ?case
  proof (cases s)
    case Nil
    then show ?thesis using less.prems by simp
  next
    case (Cons c s1)
    have cq: "c \<noteq> CHR 0x22"
      using less.prems Cons by auto
    from less.prems Cons cq
    obtain out rest out1 where jc: "json_char (s @ ?tail) = Some (out, rest)"
      and jr: "json_read_string rest = Some (out1, r)"
      and eq: "w @ s = out @ out1"
      by (auto split: option.splits)
    from json_char_step[OF jc] show ?thesis
    proof (elim disjE exE conjE)
      fix c'
      assume a: "s @ ?tail = c' # rest" "out = [c']" "c' \<noteq> CHR 0x5C" "c' \<noteq> CHR 0x22"
      then have c': "c' = c" and rest: "rest = s1 @ ?tail" using Cons by auto
      have "(w @ [c]) @ s1 = c # out1" using eq a(2) c' Cons by simp
      then have "out1 = tl (w @ [c]) @ s1"
        by (metis Nil_is_append_conv list.sel(3) not_Cons_self2 tl_append2)
      then have "json_read_string (s1 @ ?tail) = Some (tl (w @ [c]) @ s1, r)"
        using jr rest by simp
      then have "tl (w @ [c]) = [] \<and> CHR 0x22 \<notin> set s1 \<and> CHR 0x5C \<notin> set s1"
        using less.hyps[of s1 "tl (w @ [c])"] Cons by simp
      then show ?thesis
        using Cons a(3,4) c' by (cases w) auto
    next
      fix used
      assume b: "s @ ?tail = CHR 0x5C # used @ rest" "used \<noteq> []" "length out \<le> length used"
        "CHR 0x22 \<in> set used \<longrightarrow> used = [CHR 0x22] \<and> out = [CHR 0x22]"
      show ?thesis
      proof (cases "length (CHR 0x5C # used) \<le> length s")
        case True
        then obtain s2 where s: "s = (CHR 0x5C # used) @ s2" and rest: "rest = s2 @ ?tail"
          using b(1) by (auto simp: append_eq_append_conv2 append_eq_Cons_conv Cons_eq_append_conv)
        have "(w @ CHR 0x5C # used) @ s2 = out @ out1" using eq s by simp
        moreover have "length out \<le> length (w @ CHR 0x5C # used)" using b(3) by simp
        ultimately have "out1 = drop (length out) (w @ CHR 0x5C # used) @ s2"
          by (metis append_eq_append_conv_if append_eq_conv_conj)
        then have "json_read_string (s2 @ ?tail) =
            Some (drop (length out) (w @ CHR 0x5C # used) @ s2, r)"
          using jr rest by simp
        then have "drop (length out) (w @ CHR 0x5C # used) = []"
          using less.hyps[of s2 "drop (length out) (w @ CHR 0x5C # used)"] s by simp
        then have "length (w @ CHR 0x5C # used) \<le> length out"
          by (simp only: drop_eq_Nil)
        then have False using b(3) by simp
        then show ?thesis ..
      next
        case False
        then have "length s \<le> length used" by simp
        moreover have "(s @ ?tail) ! length s = CHR 0x22" by (simp add: nth_append)
        ultimately have "(CHR 0x5C # used @ rest) ! length s = CHR 0x22" using b(1) by simp
        moreover have "0 < length s" using Cons by simp
        ultimately have "(used @ rest) ! (length s - 1) = CHR 0x22"
          by (simp add: nth_Cons')
        moreover have "length s - 1 < length used" using \<open>length s \<le> length used\<close> Cons by simp
        ultimately have "CHR 0x22 \<in> set used"
          by (metis nth_append nth_mem)
        then have u: "used = [CHR 0x22]" "out = [CHR 0x22]" using b(4) by auto
        then have "s = [CHR 0x5C]" using b(1) \<open>length s \<le> length used\<close> Cons by auto
        then have "rest = CHR '','' # CHR 0x22 # t" using b(1) u by simp
        then have "out1 = [CHR '','']" using jr by (auto simp: json_char_def)
        then show ?thesis using eq u \<open>s = [CHR 0x5C]\<close>
          by (auto simp: append_eq_Cons_conv)
      qed
    qed
  qed
qed

section \<open>The recent-files list\<close>

lemma fmt_ld_now_length: "length (fmt_ld (time_null env * 1000)) \<le> 21"
proof -
  define x where "x = sint (clock_ms env)"
  have b: "- 9223372036854775808 \<le> x" "x < 9223372036854775808"
    using sint_ge[of "clock_ms env"] sint_lt[of "clock_ms env"] by (simp_all add: x_def)
  have m: "0 \<le> x mod 1000" "x mod 1000 < 1000" by simp_all
  have d: "x = x div 1000 * 1000 + x mod 1000" by simp
  have "- 18446744073709551616 < x div 1000 * 1000" using b m d by linarith
  moreover have "x div 1000 * 1000 < 18446744073709551616" using b m d by linarith
  ultimately show ?thesis
    unfolding time_null_def x_def[symmetric] by (intro fmt_ld_length) simp_all
qed

lemma add_recent_file_frame:
  "getenv (add_recent_file env p) = getenv env"
  "malloc_ok (add_recent_file env p) = malloc_ok env"
  "get_recent_path (add_recent_file env p) n = get_recent_path env n"
proof -
  show g: "getenv (add_recent_file env p) = getenv env"
    by (simp add: add_recent_file_def Let_def)
  show "malloc_ok (add_recent_file env p) = malloc_ok env"
    by (simp add: add_recent_file_def Let_def)
  show "get_recent_path (add_recent_file env p) n = get_recent_path env n"
    by (simp add: get_recent_path_def get_home_def g cong: option.case_cong)
qed

lemma add_recent_file_written:
  assumes "file_path \<noteq> []" and "\<forall>n. malloc_ok env n"
    and "fopen_w_ok env (get_recent_path env 512)"
  shows \<open>\<exists>f. files (add_recent_file env file_path) (get_recent_path env 512) = Some f \<and>
           content f =
             ''[{"path":"'' @ file_path @ ''","name":"'' @ extract_filename file_path @
             ''","lastOpened":'' @ fmt_ld (time_null env * 1000) @ ''}'' @
             (case fopen_r env (get_recent_path env 512) of
                None \<Rightarrow> '']''
              | Some g \<Rightarrow>
                  if 2 < length (cstr (take (st_size g) (content g)))
                  then '','' @ tl (cstr (take (st_size g) (content g))) else '']'') \<and>
           st_size f = length (content f) \<and>
           readable f =
             (case files env (get_recent_path env 512) of
                None \<Rightarrow> True
              | Some g \<Rightarrow> readable g)\<close>
proof -
  note l = fmt_ld_now_length[of env]
  show ?thesis
  proof (cases "fopen_r env (get_recent_path env 512)")
    case None
    then show ?thesis
      using assms l
      by (auto simp: add_recent_file_def Let_def snprintf_def split: option.splits)
  next
    case (Some g)
    show ?thesis
    proof (cases "2 < length (cstr (take (st_size g) (content g)))")
      case True
      have "st_size g \<noteq> 0"
      proof
        assume "st_size g = 0"
        then have "cstr (take (st_size g) (content g)) = []" by (simp add: cstr_def)
        then show False using True by simp
      qed
      then show ?thesis
        using assms l Some True
        by (auto simp: add_recent_file_def Let_def snprintf_def split: option.splits)
    next
      case False
      then show ?thesis
        using assms l Some
        by (auto simp: add_recent_file_def Let_def snprintf_def split: option.splits)
    qed
  qed
qed

lemma cstr_no_nul: "CHR 0x00 \<notin> set bs \<Longrightarrow> cstr bs = bs"
  unfolding cstr_def by (simp add: takeWhile_eq_all_conv) metis

lemma demo_env_facts:
  "get_recent_path demo_env 512 = ''/home/u/.mocha/recent.json''"
  "time_null demo_env * 1000 = 1700000000000"
  "fmt_ld 1700000000000 = ''1700000000000''"
  "fopen_r demo_env ''/home/u/.mocha/recent.json'' = None"
  "files demo_env ''/home/u/.mocha/recent.json'' = None"
  "\<forall>n. malloc_ok demo_env n"
  "fopen_w_ok demo_env ''/home/u/.mocha/recent.json''"
proof -
  show "get_recent_path demo_env 512 = ''/home/u/.mocha/recent.json''" by code_simp
  show "time_null demo_env * 1000 = 1700000000000" by (simp add: time_null_def demo_env_def)
  show "fmt_ld 1700000000000 = ''1700000000000''" by (simp add: fmt_ld_def dec_nat.simps)
  show "fopen_r demo_env ''/home/u/.mocha/recent.json'' = None"
    by (simp add: fopen_r_def demo_env_def)
  show "files demo_env ''/home/u/.mocha/recent.json'' = None" by (simp add: demo_env_def)
  show "\<forall>n. malloc_ok demo_env n" by (simp add: demo_env_def)
  show "fopen_w_ok demo_env ''/home/u/.mocha/recent.json''" by (simp add: demo_env_def)
qed

lemma get_recent_files_unfold:
  \<open>get_recent_files env =
     (case files env (get_recent_path env 512) of
        None \<Rightarrow> ''[]''
      | Some f \<Rightarrow>
          if readable f \<and> st_size f \<noteq> 0 \<and> malloc_ok env (st_size f + 1) then
            (if CHR 0x00 \<in> set (take (st_size f) (content f))
             then takeWhile (\<lambda>c. c \<noteq> CHR 0x00) (take (st_size f) (content f))
             else take (st_size f) (content f))
          else ''[]'')\<close>
proof (cases "files env (get_recent_path env 512)")
  case None
  then show ?thesis by (simp add: get_recent_files_def fopen_r_def)
next
  case (Some f)
  have n: "nat (int (st_size f) + 1) = st_size f + 1" by simp
  have c: "CHR 0x00 \<notin> set (take (st_size f) (content f)) \<Longrightarrow>
      cstr (take (st_size f) (content f)) = take (st_size f) (content f)"
    by (rule cstr_no_nul)
  show ?thesis
    using Some c
    by (auto simp: get_recent_files_def fopen_r_def Let_def n)
      (simp_all add: cstr_def)
qed


text \<open>
  Claim C7, as amended. \<^verbatim>\<open>get_recent_files\<close> always answers: with \<^verbatim>\<open>[]\<close> when the
  recent-files list is absent, cannot be opened, has the size 0, or its buffer is not
  granted; otherwise with the persisted bytes (those that reading as many bytes as the size
  of the file returns: all its bytes, for a regular file) up to the first zero byte, which
  is all of them, unmodified, when there is no zero byte among them. Nothing is parsed or
  validated. The answer is handed to \<^verbatim>\<open>webui_return_string\<close> as a C string, so that a
  file with a zero byte in it is not returned whole: this is the first counterexample. The
  second is a list with one entry in a process that is granted no memory: the answer is
  \<^verbatim>\<open>[]\<close>.
\<close>

theorem get_recent_files_result:
  \<open>get_recent_files env =
     (case files env (get_recent_path env 512) of
        None \<Rightarrow> ''[]''
      | Some f \<Rightarrow>
          if readable f \<and> st_size f \<noteq> 0 \<and> malloc_ok env (st_size f + 1) then
            (if CHR 0x00 \<in> set (take (st_size f) (content f))
             then takeWhile (\<lambda>c. c \<noteq> CHR 0x00) (take (st_size f) (content f))
             else take (st_size f) (content f))
          else ''[]'')\<close>
  by (rule get_recent_files_unfold)

theorem get_recent_files_result_witness:
  \<open>get_recent_files demo_env = ''[]'' \<and> get_recent_files nul_env = ''[''\<close>
proof -
  have p: "get_recent_path demo_env 512 = ''/home/u/.mocha/recent.json''"
    "get_recent_path nul_env 512 = ''/home/u/.mocha/recent.json''" by code_simp+
  show ?thesis
    using get_recent_files_result[of demo_env] get_recent_files_result[of nul_env]
    by (simp add: p) (simp add: demo_env_def nul_env_def)
qed

theorem get_recent_files_result_counterexample:
  \<open>files nul_env (get_recent_path nul_env 512) =
     Some \<lparr>st_size = 3, content = [CHR ''['', CHR 0x00, CHR '']''], readable = True\<rparr> \<and>
   get_recent_files nul_env = ''['' \<and>
   get_recent_files nul_env \<noteq> [CHR ''['', CHR 0x00, CHR '']''] \<and>
   files nomem_env (get_recent_path nomem_env 512) =
     Some \<lparr>st_size = 65,
           content = ''[{"path":"/tmp/a.log","name":"a.log","lastOpened":1700000000000}]'',
           readable = True\<rparr> \<and>
   get_recent_files nomem_env = ''[]''\<close>
proof -
  have a: \<open>files nul_env (get_recent_path nul_env 512) =
       Some \<lparr>st_size = 3, content = [CHR ''['', CHR 0x00, CHR '']''], readable = True\<rparr> \<and>
     get_recent_files nul_env = ''['' \<and>
     get_recent_files nul_env \<noteq> [CHR ''['', CHR 0x00, CHR '']'']\<close>
    by code_simp
  have p: "get_recent_path nomem_env 512 = ''/home/u/.mocha/recent.json''" by code_simp
  have b: \<open>files nomem_env (get_recent_path nomem_env 512) =
       Some \<lparr>st_size = 65,
             content = ''[{"path":"/tmp/a.log","name":"a.log","lastOpened":1700000000000}]'',
             readable = True\<rparr> \<and>
     get_recent_files nomem_env = ''[]''\<close>
    by (simp add: p get_recent_files_def fopen_r_def Let_def) (simp add: nomem_env_def)
  show ?thesis using a b by blast
qed

subsection \<open>Adding a path and reading the list back\<close>

lemma strrchr_set: "strrchr s c = Some r \<Longrightarrow> set r \<subseteq> set s"
  by (induction s arbitrary: r) (auto split: option.splits if_splits)

lemma extract_filename_set: "set (extract_filename p) \<subseteq> set p"
proof -
  have "set (tl r) \<subseteq> set p" if "strrchr p c = Some r" for r c
    using strrchr_set[OF that] by (cases r) auto
  then show ?thesis
    by (auto simp: extract_filename_def split: option.splits)
qed

lemma dec_nat_no_nul: "CHR 0x00 \<notin> set (dec_nat n)"
proof (induction n rule: dec_nat.induct)
  case (1 n)
  have "list_all (\<lambda>k. CHR 0x00 \<noteq> ''0123456789'' ! k) [0..<10]" by code_simp
  then have d: "\<And>k. k < 10 \<Longrightarrow> CHR 0x00 \<noteq> ''0123456789'' ! k"
    by (simp add: list_all_iff)
  show ?case
  proof (cases "n < 10")
    case True
    then show ?thesis using d[of n] by (simp add: dec_nat.simps[of n] del: nth_Cons_numeral)
  next
    case False
    then show ?thesis
      using "1.IH" d[of "n mod 10"]
      by (simp add: dec_nat.simps[of n] del: nth_Cons_numeral)
  qed
qed

lemma fmt_ld_no_nul: "CHR 0x00 \<notin> set (fmt_ld i)"
  by (simp add: fmt_ld_def dec_nat_no_nul)

lemma cstr_set: "CHR 0x00 \<notin> set (cstr bs)"
  by (auto simp: cstr_def dest: set_takeWhileD)

lemma get_recent_files_after_add:
  assumes "file_path \<noteq> []" and "CHR 0x00 \<notin> set file_path" and "\<forall>n. malloc_ok env n"
    and "fopen_w_ok env (get_recent_path env 512)"
    and "files env (get_recent_path env 512) = None \<or>
         (\<exists>f. files env (get_recent_path env 512) = Some f \<and> readable f)"
  shows \<open>get_recent_files (add_recent_file env file_path) =
           ''[{"path":"'' @ file_path @ ''","name":"'' @ extract_filename file_path @
           ''","lastOpened":'' @ fmt_ld (time_null env * 1000) @ ''}'' @
           (case fopen_r env (get_recent_path env 512) of
              None \<Rightarrow> '']''
            | Some g \<Rightarrow>
                if 2 < length (cstr (take (st_size g) (content g)))
                then '','' @ tl (cstr (take (st_size g) (content g))) else '']'')\<close>
proof -
  define rest where \<open>rest =
     (case fopen_r env (get_recent_path env 512) of
              None \<Rightarrow> '']''
            | Some g \<Rightarrow>
                if 2 < length (cstr (take (st_size g) (content g)))
                then '','' @ tl (cstr (take (st_size g) (content g))) else '']'')\<close>
  define body where \<open>body = ''[{"path":"'' @ file_path @ ''","name":"'' @ extract_filename file_path @
           ''","lastOpened":'' @ fmt_ld (time_null env * 1000) @ ''}'' @ rest\<close>
  have rd: "(case files env (get_recent_path env 512) of None \<Rightarrow> True | Some f \<Rightarrow> readable f)"
    using assms(5) by auto
  from add_recent_file_written[OF assms(1,3,4)] obtain f
    where w: "files (add_recent_file env file_path) (get_recent_path env 512) = Some f"
      and fc: "content f = body" and fs: "st_size f = length (content f)"
      and fr: "readable f"
    using rd by (auto simp: body_def rest_def)
  have "CHR 0x00 \<notin> set (tl (cstr data))" for data
    using cstr_set[of data] by (cases "cstr data") auto
  then have "CHR 0x00 \<notin> set rest"
    by (auto simp: rest_def split: option.splits)
  then have "CHR 0x00 \<notin> set body"
    using assms(2) extract_filename_set[of file_path] fmt_ld_no_nul
    by (auto simp: body_def)
  then have c: "cstr body = body" by (rule cstr_no_nul)
  have ne: "body \<noteq> []" by (simp add: body_def)
  have n: "nat (int (length body) + 1) = length body + 1" by simp
  have "get_recent_files (add_recent_file env file_path) = body"
    using w fc fs fr assms(3) ne c
    by (simp add: get_recent_files_def add_recent_file_frame fopen_r_def Let_def n)
  then show ?thesis by (simp add: body_def rest_def)
qed

lemma json_read_string_plain:
  "\<forall>c\<in>set p. c \<noteq> CHR 0x22 \<and> c \<noteq> CHR 0x5C \<and> \<not> of_char c < (32::nat) \<Longrightarrow>
   json_read_string (p @ CHR 0x22 # X) = Some (p, X)"
  by (induction p) (simp_all add: json_char_def)

lemma add_then_get_plain_path:
  assumes "file_path \<noteq> []"
    and "\<forall>c\<in>set file_path. c \<noteq> CHR 0x22 \<and> c \<noteq> CHR 0x5C \<and> \<not> of_char c < (32::nat)"
    and "\<forall>n. malloc_ok env n"
    and "fopen_w_ok env (get_recent_path env 512)"
    and "files env (get_recent_path env 512) = None \<or>
         (\<exists>f. files env (get_recent_path env 512) = Some f \<and> readable f)"
  shows \<open>\<exists>rest.
           get_recent_files (add_recent_file env file_path) =
             ''[{"path":"'' @ file_path @ ''","name":"'' @ extract_filename file_path @
             ''","lastOpened":'' @ fmt_ld (time_null env * 1000) @ ''}'' @ rest \<and>
           json_read_string (drop 10 (get_recent_files (add_recent_file env file_path))) =
             Some (file_path,
                   '',"name":"'' @ extract_filename file_path @
                   ''","lastOpened":'' @ fmt_ld (time_null env * 1000) @ ''}'' @ rest) \<and>
           1000 dvd time_null env * 1000 \<and>
           time_null env * 1000 \<le> sint (clock_ms env) \<and>
           sint (clock_ms env) < time_null env * 1000 + 1000\<close>
proof -
  have "CHR 0x00 \<notin> set file_path"
  proof
    assume "CHR 0x00 \<in> set file_path"
    with assms(2) have "\<not> of_char (CHR 0x00) < (32::nat)" by blast
    then show False by simp
  qed
  note g = get_recent_files_after_add[OF assms(1) this assms(3,4,5)]
  define rest where \<open>rest =
     (case fopen_r env (get_recent_path env 512) of
        None \<Rightarrow> '']''
      | Some g \<Rightarrow>
          if 2 < length (cstr (take (st_size g) (content g)))
          then '','' @ tl (cstr (take (st_size g) (content g))) else '']'')\<close>
  define tail where \<open>tail = '',"name":"'' @ extract_filename file_path @
             ''","lastOpened":'' @ fmt_ld (time_null env * 1000) @ ''}'' @ rest\<close>
  have g1: \<open>get_recent_files (add_recent_file env file_path) =
             ''[{"path":"'' @ file_path @ ''","name":"'' @ extract_filename file_path @
             ''","lastOpened":'' @ fmt_ld (time_null env * 1000) @ ''}'' @ rest\<close>
    unfolding rest_def by (rule g)
  then have g2: \<open>get_recent_files (add_recent_file env file_path) =
             ''[{"path":"'' @ file_path @ CHR 0x22 # tail\<close>
    by (simp add: tail_def)
  have \<open>json_read_string (file_path @ CHR 0x22 # tail) = Some (file_path, tail)\<close>
    by (rule json_read_string_plain[OF assms(2)])
  then have r: \<open>json_read_string (drop 10 (get_recent_files (add_recent_file env file_path))) =
      Some (file_path, tail)\<close>
    by (simp add: g2)
  define x where "x = sint (clock_ms env)"
  have "x div 1000 * 1000 \<le> x" "x < x div 1000 * 1000 + 1000"
    using pos_mod_sign[of 1000 x] pos_mod_bound[of 1000 x] div_mult_mod_eq[of x 1000]
    by linarith+
  then have t: "time_null env * 1000 \<le> sint (clock_ms env)"
    "sint (clock_ms env) < time_null env * 1000 + 1000"
    by (simp_all add: time_null_def x_def)
  have d: "1000 dvd time_null env * 1000" by simp
  show ?thesis
    using g1 r t d unfolding tail_def by blast
qed

text \<open>
  Claim C8 says that \<^verbatim>\<open>add_recent_file\<close> followed at once by \<^verbatim>\<open>get_recent_files\<close>
  yields a list whose first entry has the path that was added, with a time stamp that is a
  multiple of 1000 within one second of the time of the call. The time stamp is so for every
  path, and for a path without a quote, a backslash or a control byte the first entry is
  read back with the path that was added: this is the lemma \<open>add_then_get_plain_path\<close>. For
  the path \<^verbatim>\<open>C:\logs\app.log\<close>, of a kind the code expects (it looks for the last backslash
  to derive the name), the code does not do what the claim says: the path is written without
  escaping, \<^verbatim>\<open>get_recent_files\<close> answers with the text below, and neither the string that
  starts after \<^verbatim>\<open>[{"path":"\<close> nor the text as a whole can be read: there is no list and
  no first entry.
\<close>

theorem add_then_get_backslash_path:
  \<open>get_recent_files
     (add_recent_file demo_env (''C:'' @ [CHR 0x5C] @ ''logs'' @ [CHR 0x5C] @ ''app.log'')) =
     ''[{"path":"C:'' @ [CHR 0x5C] @ ''logs'' @ [CHR 0x5C] @
     ''app.log","name":"app.log","lastOpened":1700000000000}]'' \<and>
   json_read_string
     (drop 10
        (get_recent_files
           (add_recent_file demo_env
              (''C:'' @ [CHR 0x5C] @ ''logs'' @ [CHR 0x5C] @ ''app.log'')))) = None \<and>
   parse_recent_list
     (get_recent_files
        (add_recent_file demo_env (''C:'' @ [CHR 0x5C] @ ''logs'' @ [CHR 0x5C] @ ''app.log''))) =
     None\<close>
proof -
  have e: "extract_filename [CHR ''C'', CHR '':'', CHR 0x5C, CHR ''l'', CHR ''o'',
      CHR ''g'', CHR ''s'', CHR 0x5C, CHR ''a'', CHR ''p'', CHR ''p'', CHR ''.'',
      CHR ''l'', CHR ''o'', CHR ''g''] = ''app.log''"
    by code_simp
  have g: \<open>get_recent_files
     (add_recent_file demo_env (''C:'' @ [CHR 0x5C] @ ''logs'' @ [CHR 0x5C] @ ''app.log'')) =
     ''[{"path":"C:'' @ [CHR 0x5C] @ ''logs'' @ [CHR 0x5C] @
     ''app.log","name":"app.log","lastOpened":1700000000000}]''\<close>
    using get_recent_files_after_add[of
        "''C:'' @ [CHR 0x5C] @ ''logs'' @ [CHR 0x5C] @ ''app.log''" demo_env]
    by (simp add: demo_env_facts e)
  have j: \<open>json_read_string (drop 10
     (''[{"path":"C:'' @ [CHR 0x5C] @ ''logs'' @ [CHR 0x5C] @
     ''app.log","name":"app.log","lastOpened":1700000000000}]'')) = None\<close>
    by code_simp
  have p: \<open>parse_recent_list
     (''[{"path":"C:'' @ [CHR 0x5C] @ ''logs'' @ [CHR 0x5C] @
     ''app.log","name":"app.log","lastOpened":1700000000000}]'') = None\<close>
    by code_simp
  show ?thesis
    using j p by (simp only: g)
qed


subsection \<open>What is written for a path with a quote or a backslash\<close>

lemma parse_recent_list_first:
  "parse_recent_list (CHR ''['' # r) = Some es \<Longrightarrow> r \<noteq> '']'' \<Longrightarrow>
   \<exists>e r1 es1. parse_entry r = Some (e, r1) \<and> es = e # es1"
proof -
  assume a: "parse_recent_list (CHR ''['' # r) = Some es" and b: "r \<noteq> '']''"
  then have p: "parse_entries (length r) r = Some es"
    by (simp add: parse_recent_list_def)
  then obtain k where k: "length r = Suc k" by (cases "length r") auto
  show ?thesis
    using p unfolding k
    by (auto split: option.splits list.splits if_splits)
qed

lemma parse_entry_path:
  \<open>parse_entry (''{"path":"'' @ s1) = Some (e, r1) \<Longrightarrow>
   \<exists>s2. json_read_string s1 = Some (entry_path e, s2)\<close>
  by (auto simp: parse_entry_def expect_def split: option.splits if_splits)

lemma raw_path_not_read_back:
  assumes "CHR 0x22 \<in> set p \<or> CHR 0x5C \<in> set p"
  shows \<open>json_read_string (p @ ''","name":"'' @ t) \<noteq> Some (p, r)\<close>
proof
  assume \<open>json_read_string (p @ ''","name":"'' @ t) = Some (p, r)\<close>
  then have \<open>json_read_string (p @ CHR 0x22 # CHR '','' # CHR 0x22 # (''name":"'' @ t)) = Some ([] @ p, r)\<close>
    by simp
  from json_read_string_lag[OF this] show False using assms by simp
qed

text \<open>
  Claim C10, as amended. When \<^verbatim>\<open>add_recent_file\<close> writes the list (the path is not
  empty, no allocation is refused and the list can be opened for writing), it writes the
  supplied path and the name it derives as they are, with no escaping: the list starts with
  \<^verbatim>\<open>[{"path":"\<close>, the path, \<^verbatim>\<open>","name":"\<close>, the name, \<^verbatim>\<open>","lastOpened":\<close>, the time
  stamp and \<^verbatim>\<open>}\<close>. For every non-empty path that holds a quote or a backslash these bytes are
  there raw, so the persisted list does not read back as a list whose first entry has the
  supplied path: the string that starts after \<^verbatim>\<open>[{"path":"\<close> is never read as that path,
  and when the list can be read at all its first entry has another path. The list may still
  be well formed, which is the first counterexample: for \<^verbatim>\<open>C:\\logs\\app.log\<close> it is a
  well-formed list with the one entry \<^verbatim>\<open>C:\logs\app.log\<close>. The second is a call in a
  process that is granted no memory: it leaves the list as it was.
\<close>

theorem add_recent_file_embeds_path_raw:
  assumes "file_path \<noteq> []" and "\<forall>n. malloc_ok env n"
    and "fopen_w_ok env (get_recent_path env 512)"
  shows \<open>\<exists>f rest.
           files (add_recent_file env file_path) (get_recent_path env 512) = Some f \<and>
           content f =
             ''[{"path":"'' @ file_path @ ''","name":"'' @ extract_filename file_path @
             ''","lastOpened":'' @ fmt_ld (time_null env * 1000) @ ''}'' @ rest \<and>
           (CHR 0x22 \<in> set file_path \<or> CHR 0x5C \<in> set file_path \<longrightarrow>
              (\<forall>r. json_read_string (drop 10 (content f)) \<noteq> Some (file_path, r)) \<and>
              (\<forall>es. parse_recent_list (content f) = Some es \<longrightarrow>
                    es \<noteq> [] \<and> entry_path (hd es) \<noteq> file_path))\<close>
proof -
  define rest where \<open>rest =
     (case fopen_r env (get_recent_path env 512) of
        None \<Rightarrow> '']''
      | Some g \<Rightarrow>
          if 2 < length (cstr (take (st_size g) (content g)))
          then '','' @ tl (cstr (take (st_size g) (content g))) else '']'')\<close>
  define tail where \<open>tail = extract_filename file_path @
             ''","lastOpened":'' @ fmt_ld (time_null env * 1000) @ ''}'' @ rest\<close>
  from add_recent_file_written[OF assms] obtain f
    where w: "files (add_recent_file env file_path) (get_recent_path env 512) = Some f"
      and c: \<open>content f = ''[{"path":"'' @ file_path @ ''","name":"'' @ tail\<close>
    by (auto simp: tail_def rest_def)
  have d: \<open>drop 10 (content f) = file_path @ ''","name":"'' @ tail\<close>
    by (simp add: c)
  have raw: \<open>json_read_string (drop 10 (content f)) \<noteq> Some (file_path, r)\<close>
    if "CHR 0x22 \<in> set file_path \<or> CHR 0x5C \<in> set file_path" for r
    unfolding d using that by (rule raw_path_not_read_back)
  have lst: "es \<noteq> [] \<and> entry_path (hd es) \<noteq> file_path"
    if q: "CHR 0x22 \<in> set file_path \<or> CHR 0x5C \<in> set file_path"
      and p: "parse_recent_list (content f) = Some es" for es
  proof -
    have \<open>content f = CHR ''['' # (''{"path":"'' @ file_path @ ''","name":"'' @ tail)\<close>
      by (simp add: c)
    moreover have \<open>''{"path":"'' @ file_path @ ''","name":"'' @ tail \<noteq> '']''\<close> by simp
    ultimately obtain e r1 es1
      where pe: \<open>parse_entry (''{"path":"'' @ file_path @ ''","name":"'' @ tail) = Some (e, r1)\<close>
        and es: "es = e # es1"
      using parse_recent_list_first p by metis
    from parse_entry_path[OF pe] obtain s2
      where \<open>json_read_string (file_path @ ''","name":"'' @ tail) = Some (entry_path e, s2)\<close>
      by blast
    then have "entry_path e \<noteq> file_path"
      using raw_path_not_read_back[OF q, of tail s2] by auto
    then show ?thesis using es by simp
  qed
  show ?thesis
    using w c raw lst
    by (intro exI[of _ f] exI[of _ rest]) (simp add: tail_def)
qed

theorem add_recent_file_embeds_path_raw_witness:
  \<open>''/tmp/a"b.log'' \<noteq> [] \<and> (\<forall>n. malloc_ok demo_env n) \<and>
   fopen_w_ok demo_env (get_recent_path demo_env 512) \<and>
   (\<exists>f rest.
      files (add_recent_file demo_env ''/tmp/a"b.log'') (get_recent_path demo_env 512) = Some f \<and>
      content f =
        ''[{"path":"/tmp/a"b.log","name":"a"b.log","lastOpened":1700000000000}'' @ rest \<and>
      (\<forall>r. json_read_string (drop 10 (content f)) \<noteq> Some (''/tmp/a"b.log'', r))) \<and>
   (\<exists>f es.
      files
        (add_recent_file demo_env
           (''C:'' @ [CHR 0x5C, CHR 0x5C] @ ''logs'' @ [CHR 0x5C, CHR 0x5C] @ ''app.log''))
        (get_recent_path demo_env 512) = Some f \<and>
      parse_recent_list (content f) = Some es \<and> es \<noteq> [] \<and>
      entry_path (hd es) \<noteq>
        ''C:'' @ [CHR 0x5C, CHR 0x5C] @ ''logs'' @ [CHR 0x5C, CHR 0x5C] @ ''app.log'')\<close>
proof -
  have m: "\<forall>n. malloc_ok demo_env n" by (rule demo_env_facts)
  have o: "fopen_w_ok demo_env (get_recent_path demo_env 512)" by (simp add: demo_env_facts)
  have e: \<open>extract_filename ''/tmp/a"b.log'' = ''a"b.log''\<close> by code_simp
  have q: \<open>CHR 0x22 \<in> set ''/tmp/a"b.log''\<close> by simp
  from add_recent_file_embeds_path_raw[of \<open>''/tmp/a"b.log''\<close> demo_env, OF _ m o]
  obtain f rest where
    "files (add_recent_file demo_env ''/tmp/a\"b.log'') (get_recent_path demo_env 512) = Some f"
    \<open>content f =
             ''[{"path":"'' @ ''/tmp/a"b.log'' @ ''","name":"'' @ extract_filename ''/tmp/a"b.log'' @
             ''","lastOpened":'' @ fmt_ld (time_null demo_env * 1000) @ ''}'' @ rest\<close>
    \<open>\<forall>r. json_read_string (drop 10 (content f)) \<noteq> Some (''/tmp/a"b.log'', r)\<close>
    using q by auto
  then have first: \<open>\<exists>f rest.
      files (add_recent_file demo_env ''/tmp/a"b.log'') (get_recent_path demo_env 512) = Some f \<and>
      content f =
        ''[{"path":"/tmp/a"b.log","name":"a"b.log","lastOpened":1700000000000}'' @ rest \<and>
      (\<forall>r. json_read_string (drop 10 (content f)) \<noteq> Some (''/tmp/a"b.log'', r))\<close>
    by (simp add: e demo_env_facts(2,3))
  define P where "P = ''C:'' @ [CHR 0x5C, CHR 0x5C] @ ''logs'' @ [CHR 0x5C, CHR 0x5C] @ ''app.log''"
  have pn: "P \<noteq> []" and pq: "CHR 0x22 \<in> set P \<or> CHR 0x5C \<in> set P"
    by (simp_all add: P_def)
  have pe: "extract_filename P = ''app.log''" unfolding P_def by code_simp
  from add_recent_file_written[OF pn m o] obtain g
    where g: "files (add_recent_file demo_env P) (get_recent_path demo_env 512) = Some g"
      and gc: \<open>content g = ''[{"path":"'' @ P @
                 ''","name":"app.log","lastOpened":1700000000000}]''\<close>
    by (auto simp: demo_env_facts pe)
  have \<open>parse_recent_list (''[{"path":"'' @ P @
           ''","name":"app.log","lastOpened":1700000000000}]'') =
         Some [\<lparr>entry_path = ''C:'' @ [CHR 0x5C] @ ''logs'' @ [CHR 0x5C] @ ''app.log'',
                entry_name = ''app.log'', last_opened = 1700000000000\<rparr>]\<close>
    unfolding P_def by code_simp
  then have gp: \<open>parse_recent_list (content g) =
         Some [\<lparr>entry_path = ''C:'' @ [CHR 0x5C] @ ''logs'' @ [CHR 0x5C] @ ''app.log'',
                entry_name = ''app.log'', last_opened = 1700000000000\<rparr>]\<close>
    by (simp only: gc)
  from add_recent_file_embeds_path_raw[OF pn m o] g pq
  have \<open>\<forall>es. parse_recent_list (content g) = Some es \<longrightarrow>
              es \<noteq> [] \<and> entry_path (hd es) \<noteq> P\<close>
    by auto
  with gp have \<open>[\<lparr>entry_path = ''C:'' @ [CHR 0x5C] @ ''logs'' @ [CHR 0x5C] @ ''app.log'',
                entry_name = ''app.log'', last_opened = 1700000000000\<rparr>] \<noteq> [] \<and>
      entry_path (hd [\<lparr>entry_path = ''C:'' @ [CHR 0x5C] @ ''logs'' @ [CHR 0x5C] @ ''app.log'',
                entry_name = ''app.log'', last_opened = 1700000000000\<rparr>]) \<noteq> P\<close>
    by blast
  with g gp have second: \<open>\<exists>f es.
      files (add_recent_file demo_env P) (get_recent_path demo_env 512) = Some f \<and>
      parse_recent_list (content f) = Some es \<and> es \<noteq> [] \<and> entry_path (hd es) \<noteq> P\<close>
    by blast
  show ?thesis using m o first second unfolding P_def by blast
qed

theorem add_recent_file_embeds_path_raw_counterexample:
  \<open>CHR 0x5C \<in> set (''C:'' @ [CHR 0x5C, CHR 0x5C] @ ''logs'' @ [CHR 0x5C, CHR 0x5C] @ ''app.log'') \<and>
   map_option content
     (files
        (add_recent_file demo_env
           (''C:'' @ [CHR 0x5C, CHR 0x5C] @ ''logs'' @ [CHR 0x5C, CHR 0x5C] @ ''app.log''))
        (get_recent_path demo_env 512)) =
     Some (''[{"path":"C:'' @ [CHR 0x5C, CHR 0x5C] @ ''logs'' @ [CHR 0x5C, CHR 0x5C] @
           ''app.log","name":"app.log","lastOpened":1700000000000}]'') \<and>
   parse_recent_list
     (''[{"path":"C:'' @ [CHR 0x5C, CHR 0x5C] @ ''logs'' @ [CHR 0x5C, CHR 0x5C] @
      ''app.log","name":"app.log","lastOpened":1700000000000}]'') =
     Some [\<lparr>entry_path = ''C:'' @ [CHR 0x5C] @ ''logs'' @ [CHR 0x5C] @ ''app.log'',
            entry_name = ''app.log'', last_opened = 1700000000000\<rparr>] \<and>
   add_recent_file nomem_env ''/tmp/a"b.log'' = nomem_env\<close>
proof -
  have m: "\<And>n. \<not> malloc_ok nomem_env n" by (simp add: nomem_env_def)
  have n: \<open>add_recent_file nomem_env ''/tmp/a"b.log'' = nomem_env\<close>
    by (simp add: add_recent_file_def Let_def m)
  have e: "extract_filename [CHR ''C'', CHR '':'', CHR 0x5C, CHR 0x5C, CHR ''l'', CHR ''o'',
      CHR ''g'', CHR ''s'', CHR 0x5C, CHR 0x5C, CHR ''a'', CHR ''p'', CHR ''p'', CHR ''.'',
      CHR ''l'', CHR ''o'', CHR ''g''] = ''app.log''"
    by code_simp
  have w: \<open>map_option content
     (files
        (add_recent_file demo_env
           (''C:'' @ [CHR 0x5C, CHR 0x5C] @ ''logs'' @ [CHR 0x5C, CHR 0x5C] @ ''app.log''))
        (get_recent_path demo_env 512)) =
     Some (''[{"path":"C:'' @ [CHR 0x5C, CHR 0x5C] @ ''logs'' @ [CHR 0x5C, CHR 0x5C] @
           ''app.log","name":"app.log","lastOpened":1700000000000}]'')\<close>
    using add_recent_file_written[of
        "''C:'' @ [CHR 0x5C, CHR 0x5C] @ ''logs'' @ [CHR 0x5C, CHR 0x5C] @ ''app.log''" demo_env]
    by (auto simp: demo_env_facts e)
  have p: \<open>parse_recent_list
     (''[{"path":"C:'' @ [CHR 0x5C, CHR 0x5C] @ ''logs'' @ [CHR 0x5C, CHR 0x5C] @
      ''app.log","name":"app.log","lastOpened":1700000000000}]'') =
     Some [\<lparr>entry_path = ''C:'' @ [CHR 0x5C] @ ''logs'' @ [CHR 0x5C] @ ''app.log'',
            entry_name = ''app.log'', last_opened = 1700000000000\<rparr>]\<close>
    by code_simp
  show ?thesis using w p n by simp
qed


end
